theory Spec2Isabelle
  imports Complex_Main "HOL-Library.AList"
begin

text \<open>
  The class \<^verbatim>\<open>SearchAPI\<close> of the transcript search: the cached operations
  \<^verbatim>\<open>summary\<close> and \<^verbatim>\<open>hits\<close>, the shaping of aggregation responses and of hits, and
  \<^verbatim>\<open>getContext\<close>. Methods keep their names without the leading underscore; the
  operation \<^verbatim>\<open>hits\<close> is \<open>hits_op\<close>, \<open>hits\<close> being the field of its result.
\<close>

section \<open>JavaScript values\<close>

text \<open>
  The search API handles dynamically typed objects: option bags, raw index hits, stored
  documents. A value is one of the JSON-shaped kinds of JavaScript. An object is the list
  of its own properties in insertion order. For option bags and stored documents this is
  the order \<^verbatim>\<open>JSON.stringify\<close> and \<^verbatim>\<open>Object.assign\<close> enumerate them in: their
  property names are taken not to be array indices and not to name a member of
  \<^verbatim>\<open>Object.prototype\<close>. The objects that \<^verbatim>\<open>SearchAPI\<close> itself fills by assignment
  (the counts of an aggregation, the map of persons) take any string as a name: for them
  the order of \<^verbatim>\<open>Object.keys\<close>, the assignment to \<^verbatim>\<open>__proto__\<close> and the reading of
  inherited members are modelled below. Numbers that occur in option bags are integers
  (below \<open>10^21\<close> in magnitude, where JavaScript prints them in plain decimal); strings
  are lists of 8-bit characters.
\<close>

datatype jsval =
    JUndefined
  | JNull
  | JBool bool
  | JNum int
  | JStr string
  | JArr "jsval list"
  | JObj "(string \<times> jsval) list"

type_synonym object = "(string \<times> jsval) list"

text \<open>ToBoolean, as used by \<^verbatim>\<open>if (v)\<close>, \<^verbatim>\<open>a || b\<close> and \<^verbatim>\<open>c ? x : y\<close>.\<close>

fun truthy :: "jsval \<Rightarrow> bool" where
  "truthy JUndefined = False"
| "truthy JNull = False"
| "truthy (JBool b) = b"
| "truthy (JNum n) = (n \<noteq> 0)"
| "truthy (JStr s) = (s \<noteq> [])"
| "truthy (JArr xs) = True"
| "truthy (JObj ps) = True"

definition js_or :: "jsval \<Rightarrow> jsval \<Rightarrow> jsval" where
  "js_or a b = (if truthy a then a else b)"

text \<open>\<^verbatim>\<open>ob[k]\<close>: a missing property reads as \<^verbatim>\<open>undefined\<close>.\<close>

definition get_prop :: "object \<Rightarrow> string \<Rightarrow> jsval" where
  "get_prop ob k = (case map_of ob k of None \<Rightarrow> JUndefined | Some v \<Rightarrow> v)"

text \<open>
  \<^verbatim>\<open>ob[k] = v\<close>: an existing property keeps its place and takes the new value, a new
  property goes to the end.
\<close>

definition set_prop :: "('k \<times> 'v) list \<Rightarrow> 'k \<Rightarrow> 'v \<Rightarrow> ('k \<times> 'v) list" where
  "set_prop ob k v = AList.update k v ob"

text \<open>
  \<^verbatim>\<open>Object.keys(ob)\<close>: the names that are array indices (decimal numerals below
  \<open>2^32 - 1\<close>, without a leading zero) come first, ascending, then the other names in
  the order of their first assignment.
\<close>

definition decimal_value :: "string \<Rightarrow> nat" where
  "decimal_value s = foldl (\<lambda>n c. 10 * n + (of_char c - 48)) 0 s"

definition is_array_index :: "string \<Rightarrow> bool" where
  "is_array_index s =
     (s \<noteq> [] \<and> list_all (\<lambda>c. c \<in> set ''0123456789'') s \<and>
      (length s = 1 \<or> hd s \<noteq> CHR ''0'') \<and> decimal_value s < 4294967295)"

definition Object_keys :: "(string \<times> 'v) list \<Rightarrow> string list" where
  "Object_keys ob =
     (let names = map fst ob
      in sort_key decimal_value (filter is_array_index names) @
         filter (\<lambda>k. \<not> is_array_index k) names)"

text \<open>
  The members every object inherits from \<^verbatim>\<open>Object.prototype\<close>: functions, and under
  \<^verbatim>\<open>__proto__\<close> the prototype itself. Reading \<^verbatim>\<open>ob[k]\<close> finds them when \<open>ob\<close> has no
  property of its own named \<open>k\<close>.
\<close>

definition Object_prototype_members :: "string list" where
  "Object_prototype_members =
     [''constructor'', ''toString'', ''toLocaleString'', ''valueOf'', ''hasOwnProperty'',
      ''isPrototypeOf'', ''propertyIsEnumerable'', ''__defineGetter__'', ''__defineSetter__'',
      ''__lookupGetter__'', ''__lookupSetter__'', ''__proto__'']"

text \<open>\<^verbatim>\<open>Object.assign(target, src)\<close>: every property of \<open>src\<close> is assigned to the target in turn.\<close>

definition Object_assign :: "object \<Rightarrow> object \<Rightarrow> object" where
  "Object_assign target src = fold (\<lambda>(k, v) t. set_prop t k v) src target"

text \<open>\<^verbatim>\<open>xs.indexOf(x)\<close>: the first position holding \<open>x\<close>, \<open>-1\<close> when there is none.\<close>

fun index_from :: "int \<Rightarrow> 'a list \<Rightarrow> 'a \<Rightarrow> int" where
  "index_from i [] x = - 1"
| "index_from i (y # ys) x = (if y = x then i else index_from (i + 1) ys x)"

definition indexOf :: "'a list \<Rightarrow> 'a \<Rightarrow> int" where
  "indexOf xs x = index_from 0 xs x"

text \<open>\<^verbatim>\<open>xs.filter((x, i) => p(x, i))\<close>: the callback sees each element with its index.\<close>

definition filter_indexed :: "('a \<Rightarrow> int \<Rightarrow> bool) \<Rightarrow> 'a list \<Rightarrow> 'a list" where
  "filter_indexed p xs =
     map fst (filter (\<lambda>(x, i). p x i) (zip xs (map int [0..<length xs])))"

text \<open>The elements of a list in the order of their first occurrence, each once.\<close>

fun first_occurrences :: "'a list \<Rightarrow> 'a list" where
  "first_occurrences [] = []"
| "first_occurrences (x # xs) = x # filter (\<lambda>y. y \<noteq> x) (first_occurrences xs)"

text \<open>
  \<^verbatim>\<open>xs.slice(start, end)\<close>: a negative bound counts from the end, both bounds are clamped
  to the array.
\<close>

definition slice :: "int \<Rightarrow> int \<Rightarrow> 'a list \<Rightarrow> 'a list" where
  "slice start end xs =
     (let len = int (length xs);
          k = (if start < 0 then max (len + start) 0 else min start len);
          final = (if end < 0 then max (len + end) 0 else min end len)
      in take (nat (final - k)) (drop (nat k) xs))"

subsection \<open>Numbers\<close>

text \<open>
  A number is a finite value, an infinity or \<^verbatim>\<open>NaN\<close>. Finite values are exact
  rationals: the rounding of doubles and the sign of zero are not modelled. Division by
  zero gives an infinity, or \<^verbatim>\<open>NaN\<close> for \<open>0 / 0\<close>; \<^verbatim>\<open>NaN\<close> is contagious.
\<close>

datatype jsnumber = Finite rat | PosInfinity | NegInfinity | NaN

fun js_divide :: "jsnumber \<Rightarrow> jsnumber \<Rightarrow> jsnumber" where
  "js_divide (Finite a) (Finite b) =
     (if b = 0 then (if a = 0 then NaN else if 0 < a then PosInfinity else NegInfinity)
      else Finite (a / b))"
| "js_divide (Finite a) PosInfinity = Finite 0"
| "js_divide (Finite a) NegInfinity = Finite 0"
| "js_divide PosInfinity (Finite b) = (if 0 \<le> b then PosInfinity else NegInfinity)"
| "js_divide NegInfinity (Finite b) = (if 0 \<le> b then NegInfinity else PosInfinity)"
| "js_divide x y = NaN"

fun js_times :: "jsnumber \<Rightarrow> jsnumber \<Rightarrow> jsnumber" where
  "js_times (Finite a) (Finite b) = Finite (a * b)"
| "js_times (Finite a) PosInfinity =
     (if a = 0 then NaN else if 0 < a then PosInfinity else NegInfinity)"
| "js_times (Finite a) NegInfinity =
     (if a = 0 then NaN else if 0 < a then NegInfinity else PosInfinity)"
| "js_times PosInfinity (Finite b) =
     (if b = 0 then NaN else if 0 < b then PosInfinity else NegInfinity)"
| "js_times NegInfinity (Finite b) =
     (if b = 0 then NaN else if 0 < b then NegInfinity else PosInfinity)"
| "js_times PosInfinity PosInfinity = PosInfinity"
| "js_times PosInfinity NegInfinity = NegInfinity"
| "js_times NegInfinity PosInfinity = NegInfinity"
| "js_times NegInfinity NegInfinity = PosInfinity"
| "js_times x y = NaN"

fun js_minus :: "jsnumber \<Rightarrow> jsnumber \<Rightarrow> jsnumber" where
  "js_minus (Finite a) (Finite b) = Finite (a - b)"
| "js_minus (Finite a) PosInfinity = NegInfinity"
| "js_minus (Finite a) NegInfinity = PosInfinity"
| "js_minus PosInfinity (Finite b) = PosInfinity"
| "js_minus NegInfinity (Finite b) = NegInfinity"
| "js_minus PosInfinity NegInfinity = PosInfinity"
| "js_minus NegInfinity PosInfinity = NegInfinity"
| "js_minus x y = NaN"

text \<open>
  \<^verbatim>\<open>xs.sort(cmp)\<close> with a comparator that returns a number: negative or zero keeps \<open>a\<close>
  before \<open>b\<close>, and \<^verbatim>\<open>NaN\<close> counts as zero. The sort is the stable one (insertion into
  the sorted rest); where the comparator is not an order, as it is when it returns
  \<^verbatim>\<open>NaN\<close>, engines may arrange the array differently.
\<close>

fun not_after :: "jsnumber \<Rightarrow> bool" where
  "not_after (Finite v) = (v \<le> 0)"
| "not_after PosInfinity = False"
| "not_after NegInfinity = True"
| "not_after NaN = True"

fun insert_by :: "('a \<Rightarrow> 'a \<Rightarrow> jsnumber) \<Rightarrow> 'a \<Rightarrow> 'a list \<Rightarrow> 'a list" where
  "insert_by cmp x [] = [x]"
| "insert_by cmp x (y # ys) =
     (if not_after (cmp x y) then x # y # ys else y # insert_by cmp x ys)"

definition js_sort :: "('a \<Rightarrow> 'a \<Rightarrow> jsnumber) \<Rightarrow> 'a list \<Rightarrow> 'a list" where
  "js_sort cmp xs = foldr (insert_by cmp) xs []"

subsection \<open>JSON.stringify\<close>

text \<open>
  The serialisation of ECMAScript: a string is quoted with the double quote, the backslash
  and the control characters escaped; an array or object lists its members in order,
  separated by commas; an \<^verbatim>\<open>undefined\<close> member of an object is left out and one of an
  array is written \<^verbatim>\<open>null\<close>; \<^verbatim>\<open>JSON.stringify(undefined)\<close> is \<^verbatim>\<open>undefined\<close>.
\<close>

definition hex_digit :: "nat \<Rightarrow> char" where
  "hex_digit n = ''0123456789abcdef'' ! (n mod 16)"

definition quote_char :: "char \<Rightarrow> string" where
  "quote_char c =
     (if c = CHR 0x22 then [CHR 0x5C, CHR 0x22]
      else if c = CHR 0x5C then [CHR 0x5C, CHR 0x5C]
      else if c = CHR 0x08 then [CHR 0x5C, CHR ''b'']
      else if c = CHR 0x0C then [CHR 0x5C, CHR ''f'']
      else if c = CHR 0x0A then [CHR 0x5C, CHR ''n'']
      else if c = CHR 0x0D then [CHR 0x5C, CHR ''r'']
      else if c = CHR 0x09 then [CHR 0x5C, CHR ''t'']
      else if (of_char c :: nat) < 32
        then [CHR 0x5C, CHR ''u'', CHR ''0'', CHR ''0'',
              hex_digit (of_char c div 16), hex_digit (of_char c mod 16)]
      else [c])"

definition quote :: "string \<Rightarrow> string" where
  "quote s = [CHR 0x22] @ concat (map quote_char s) @ [CHR 0x22]"

fun digits :: "nat \<Rightarrow> string" where
  "digits n = (if n < 10 then [''0123456789'' ! n]
               else digits (n div 10) @ [''0123456789'' ! (n mod 10)])"

declare digits.simps [simp del]

definition number_to_string :: "int \<Rightarrow> string" where
  "number_to_string n = (if n < 0 then CHR ''-'' # digits (nat (- n)) else digits (nat n))"

fun join :: "string \<Rightarrow> string list \<Rightarrow> string" where
  "join sep [] = []"
| "join sep [x] = x"
| "join sep (x # y # ys) = x @ sep @ join sep (y # ys)"

fun JSON_stringify :: "jsval \<Rightarrow> string option" where
  "JSON_stringify JUndefined = None"
| "JSON_stringify JNull = Some ''null''"
| "JSON_stringify (JBool b) = Some (if b then ''true'' else ''false'')"
| "JSON_stringify (JNum n) = Some (number_to_string n)"
| "JSON_stringify (JStr s) = Some (quote s)"
| "JSON_stringify (JArr xs) =
     Some (''['' @ join '',''
        (map (\<lambda>x. case JSON_stringify x of None \<Rightarrow> ''null'' | Some t \<Rightarrow> t) xs) @ '']'')"
| "JSON_stringify (JObj ps) =
     Some (''{'' @ join '',''
        (concat (map (\<lambda>(k, v). case JSON_stringify v of None \<Rightarrow> []
                                 | Some t \<Rightarrow> [quote k @ '':'' @ t]) ps)) @ ''}'')"

text \<open>String concatenation \<^verbatim>\<open>s + JSON.stringify(v)\<close> prints a missing result as \<^verbatim>\<open>undefined\<close>.\<close>

definition concat_stringified :: "string \<Rightarrow> string option \<Rightarrow> string" where
  "concat_stringified s t = s @ (case t of None \<Rightarrow> ''undefined'' | Some u \<Rightarrow> u)"

text \<open>
  What the serialisation of an object is made of: the members whose value is not
  \<^verbatim>\<open>undefined\<close>, each written as its quoted name, a colon and its value. A scalar is a
  value that is neither an array nor an object; \<open>closes_value\<close> holds of the text that can
  follow a member (nothing, a comma or the closing brace).
\<close>

fun scalar :: "jsval \<Rightarrow> bool" where
  "scalar (JArr xs) = False"
| "scalar (JObj ps) = False"
| "scalar v = True"

definition defined_members :: "object \<Rightarrow> object" where
  "defined_members ob = filter (\<lambda>p. snd p \<noteq> JUndefined) ob"

definition member_string :: "string \<times> jsval \<Rightarrow> string" where
  "member_string p =
     quote (fst p) @ '':'' @ (case JSON_stringify (snd p) of None \<Rightarrow> [] | Some t \<Rightarrow> t)"

definition closes_value :: "string \<Rightarrow> bool" where
  "closes_value r = (case r of [] \<Rightarrow> True | c # _ \<Rightarrow> c = CHR '','' \<or> c = CHR ''}'')"

section \<open>Errors and promises\<close>

text \<open>
  The API throws \<^verbatim>\<open>Error('invalid interval: ...')\<close> for an interval outside the allowed
  ones (the error carries the offending value); reading a member of \<^verbatim>\<open>undefined\<close> is a
  \<^verbatim>\<open>TypeError\<close>; a failed round trip to the index is an upstream error with its message.
\<close>

datatype error = InvalidIntervalError jsval | TypeError | UpstreamQueryError string

text \<open>
  A call either throws before it returns, or returns a promise, which is rejected or
  resolved. Calls are made one after the other, each promise settled before the next call.
\<close>

datatype 'a outcome = Throws error | Rejected error | Resolved 'a

text \<open>\<^verbatim>\<open>promise.then(handler)\<close>: a handler that throws rejects the promise it returns.\<close>

fun then_promise :: "'a outcome \<Rightarrow> ('a \<Rightarrow> error + 'b) \<Rightarrow> 'b outcome" where
  "then_promise (Throws e) handler = Throws e"
| "then_promise (Rejected e) handler = Rejected e"
| "then_promise (Resolved v) handler =
     (case handler v of Inl e \<Rightarrow> Rejected e | Inr w \<Rightarrow> Resolved w)"

section \<open>The data of the index\<close>

text \<open>
  A raw hit of the index: \<^verbatim>\<open>_id\<close>, \<^verbatim>\<open>_score\<close>, the fragments \<^verbatim>\<open>highlight.text\<close> when
  the hit has a \<^verbatim>\<open>highlight\<close> member, and the stored document \<^verbatim>\<open>_source\<close>.
\<close>

record raw_hit =
  hit_id :: jsval
  hit_score :: jsval
  highlight :: "string list option"
  source :: object

text \<open>
  A bucket of an aggregation. \<open>person_hits\<close> holds the \<^verbatim>\<open>_source\<close> of each hit of the
  bucket's \<^verbatim>\<open>person.hits.hits\<close> (the top-hits sub-aggregation of the filtered speakers).
\<close>

record bucket =
  key_as_string :: "string option"
  key :: string
  doc_count :: nat
  person_hits :: "object list"

text \<open>
  The six aggregations of a summary response, each as its list of buckets: the filtered
  ones (\<^verbatim>\<open>filteredPeople.people\<close>, \<^verbatim>\<open>filteredTimeline.timeline\<close>,
  \<^verbatim>\<open>filteredParties.parties\<close>) and the unfiltered ones (\<^verbatim>\<open>people\<close>, \<^verbatim>\<open>timeline\<close>,
  \<^verbatim>\<open>parties\<close>).
\<close>

record aggregations =
  filteredPeople :: "bucket list"
  agg_people :: "bucket list"
  filteredTimeline :: "bucket list"
  agg_timeline :: "bucket list"
  filteredParties :: "bucket list"
  agg_parties :: "bucket list"

record search_response =
  response_total :: nat
  response_hits :: "raw_hit list option"
  response_aggregations :: aggregations

text \<open>The body of the search that \<^verbatim>\<open>getContext\<close> sends.\<close>

record context_body =
  term_transcript :: string
  range_gte :: int
  range_lte :: int
  body_size :: int
  body_sort :: string

text \<open>
  A request to the index: the one \<^verbatim>\<open>_buildAggregationsQuery(opts)\<close> builds, the one
  \<^verbatim>\<open>_buildHitsQuery(opts)\<close> builds (both functions of the options alone), or a context
  search. The index itself is a function \<open>es\<close> from requests to a failure or a
  response.
\<close>

datatype request = AggregationsQuery object | HitsQuery object | ContextQuery context_body

section \<open>The results of the API\<close>

text \<open>
  What \<^verbatim>\<open>counts[key] || 0.0\<close> yields: a number of documents, or the inherited member
  of that name. As an operand of arithmetic the member converts to \<^verbatim>\<open>NaN\<close>.
\<close>

datatype count_value = Number nat | Builtin string

fun to_number :: "count_value \<Rightarrow> jsnumber" where
  "to_number (Number n) = Finite (of_nat n)"
| "to_number (Builtin k) = NaN"

text \<open>What \<^verbatim>\<open>personMap[key]\<close> yields: a value, or the inherited member of that name.\<close>

datatype meta_value = MetaValue jsval | MetaBuiltin string

record percentage_entry =
  entry_key :: string
  count :: count_value
  total' :: count_value
  pct :: jsnumber

record person_entry = percentage_entry +
  meta :: meta_value

record summary_result =
  counts_total :: nat
  timeline :: "percentage_entry list"
  parties :: "percentage_entry list"
  people_count :: "person_entry list"
  people_pct :: "person_entry list"

record hits_result =
  query :: jsval
  hits :: "object list"
  hits_counts_total :: nat

datatype shaped = SummaryResult summary_result | HitsResult hits_result

section \<open>The cache\<close>

text \<open>
  \<^verbatim>\<open>LRU({max: 500})\<close> of the library lru-cache: the entries, most recently used
  first. \<open>get\<close> moves the entry it finds to the front; \<open>set\<close> puts the entry at the front,
  replacing one of the same key, and drops what exceeds the capacity from the far end.
\<close>

definition LRU_MAX :: nat where
  "LRU_MAX = 500"

definition lru_get :: "string \<Rightarrow> (string \<times> 'v) list \<Rightarrow> 'v option \<times> (string \<times> 'v) list" where
  "lru_get k c =
     (case map_of c k of
        None \<Rightarrow> (None, c)
      | Some v \<Rightarrow> (Some v, (k, v) # filter (\<lambda>p. fst p \<noteq> k) c))"

definition lru_set :: "string \<Rightarrow> 'v \<Rightarrow> (string \<times> 'v) list \<Rightarrow> (string \<times> 'v) list" where
  "lru_set k v c = take LRU_MAX ((k, v) # filter (\<lambda>p. fst p \<noteq> k) c)"

text \<open>
  The state of the service: its cache, and the log of the requests sent to the index so
  far (one entry per round trip).
\<close>

record 'v api_state =
  cache :: "(string \<times> 'v) list"
  requests :: "request list"

definition cacheKey :: "string \<Rightarrow> jsval \<Rightarrow> string" where
  "cacheKey name data = concat_stringified (name @ '':'') (JSON_stringify data)"

text \<open>
  \<^verbatim>\<open>cached(name, data, fetchFunc)\<close>. The test \<^verbatim>\<open>if (hit)\<close> is on the truth value of
  what the cache returns, so \<open>is_truthy\<close> says which stored values count as a hit.
  \<open>fetchFunc\<close> works on the request log and returns the promise it settles to; its
  resolved value is stored by \<^verbatim>\<open>_cacheResponse\<close>.
\<close>

definition cacheResponse :: "string \<Rightarrow> 'v \<Rightarrow> (string \<times> 'v) list \<Rightarrow> 'v \<times> (string \<times> 'v) list" where
  "cacheResponse k v c = (v, lru_set k v c)"

definition fetch_and_store ::
  "string \<Rightarrow> (request list \<Rightarrow> 'v outcome \<times> request list) \<Rightarrow> (string \<times> 'v) list
     \<Rightarrow> 'v api_state \<Rightarrow> 'v outcome \<times> 'v api_state" where
  "fetch_and_store k fetchFunc c s =
     (case fetchFunc (requests s) of
        (Throws e, sent) \<Rightarrow> (Throws e, s\<lparr>cache := c, requests := sent\<rparr>)
      | (Rejected e, sent) \<Rightarrow> (Rejected e, s\<lparr>cache := c, requests := sent\<rparr>)
      | (Resolved v, sent) \<Rightarrow>
          (let (w, c') = cacheResponse k v c
           in (Resolved w, s\<lparr>cache := c', requests := sent\<rparr>)))"

definition cached ::
  "('v \<Rightarrow> bool) \<Rightarrow> string \<Rightarrow> jsval \<Rightarrow> (request list \<Rightarrow> 'v outcome \<times> request list)
     \<Rightarrow> 'v api_state \<Rightarrow> 'v outcome \<times> 'v api_state" where
  "cached is_truthy name data fetchFunc s =
     (let k = cacheKey name data;
          (hit, c) = lru_get k (cache s)
      in case hit of
           None \<Rightarrow> fetch_and_store k fetchFunc c s
         | Some v \<Rightarrow>
             if is_truthy v then (Resolved v, s\<lparr>cache := c\<rparr>)
             else fetch_and_store k fetchFunc c s)"

section \<open>The search API\<close>

definition ALLOWED_INTERVALS :: "jsval list" where
  "ALLOWED_INTERVALS = [JStr ''month'', JStr ''12w'', JStr ''24w'', JStr ''year'']"

definition intervalFrom :: "object \<Rightarrow> error + jsval" where
  "intervalFrom opts =
     (let interval = js_or (get_prop opts ''interval'') (JStr ''month'')
      in if indexOf ALLOWED_INTERVALS interval = - 1
         then Inl (InvalidIntervalError interval)
         else Inr interval)"

text \<open>
  \<^verbatim>\<open>es.search(request)\<close>: one round trip, entered in the log; the promise is rejected
  when the index fails.
\<close>

definition es_search ::
  "(request \<Rightarrow> error + search_response) \<Rightarrow> request \<Rightarrow> request list
     \<Rightarrow> search_response outcome \<times> request list" where
  "es_search es req sent =
     ((case es req of Inl e \<Rightarrow> Rejected e | Inr response \<Rightarrow> Resolved response), sent @ [req])"

subsection \<open>Shaping an aggregation response\<close>

text \<open>\<^verbatim>\<open>bucket.key_as_string || bucket.key\<close>\<close>

definition bucket_name :: "bucket \<Rightarrow> string" where
  "bucket_name b =
     (case key_as_string b of
        None \<Rightarrow> key b
      | Some s \<Rightarrow> if s \<noteq> [] then s else key b)"

text \<open>
  \<^verbatim>\<open>counts[name] = bucket.doc_count\<close>. Under the name \<^verbatim>\<open>__proto__\<close> the assignment
  reaches the setter of the prototype, which ignores a number: no property is made.
\<close>

definition assign_count :: "(string \<times> nat) list \<Rightarrow> string \<Rightarrow> nat \<Rightarrow> (string \<times> nat) list" where
  "assign_count counts k n = (if k = ''__proto__'' then counts else set_prop counts k n)"

definition parseAggregation :: "bucket list \<Rightarrow> (string \<times> nat) list" where
  "parseAggregation buckets =
     fold (\<lambda>b counts. assign_count counts (bucket_name b) (doc_count b)) buckets []"

text \<open>
  \<^verbatim>\<open>counts[key] || 0.0\<close>: the count of the key; zero when the key has no count or a
  count of zero; and when the object has no property of that name but inherits a member
  of that name, the member, which is truthy.
\<close>

definition count_or_zero :: "(string \<times> nat) list \<Rightarrow> string \<Rightarrow> count_value" where
  "count_or_zero counts k =
     (case map_of counts k of
        Some n \<Rightarrow> Number n
      | None \<Rightarrow> if k \<in> set Object_prototype_members then Builtin k else Number 0)"

definition percentage_keys ::
  "(string \<times> nat) list \<Rightarrow> (string \<times> nat) list \<Rightarrow> bool \<Rightarrow> string list" where
  "percentage_keys sub whole combineKeys =
     (if combineKeys
      then (let keys = Object_keys sub @ Object_keys whole
            in filter_indexed (\<lambda>k i. indexOf keys k = i) keys)
      else Object_keys sub)"

definition calculatePercentages ::
  "(string \<times> nat) list \<Rightarrow> (string \<times> nat) list \<Rightarrow> bool \<Rightarrow> percentage_entry list" where
  "calculatePercentages sub whole combineKeys =
     map (\<lambda>k. let total = count_or_zero whole k;
                   val = count_or_zero sub k
               in \<lparr>entry_key = k, count = val, total' = total,
                   pct = (if total = Number 0 then Finite 0
                          else js_times (js_divide (to_number val) (to_number total))
                                 (Finite 100))\<rparr>)
         (percentage_keys sub whole combineKeys)"

text \<open>
  The map of persons: its own properties and, once \<^verbatim>\<open>map['__proto__'] = source\<close> has
  run, the stored document that has become its prototype.
\<close>

record person_map =
  own_persons :: "(string \<times> object) list"
  replaced_prototype :: "object option"

definition assign_person :: "person_map \<Rightarrow> string \<Rightarrow> object \<Rightarrow> person_map" where
  "assign_person m k h =
     (if k = ''__proto__'' then m\<lparr>replaced_prototype := Some h\<rparr>
      else m\<lparr>own_persons := set_prop (own_persons m) k h\<rparr>)"

definition inherited_member :: "string \<Rightarrow> meta_value" where
  "inherited_member k =
     (if k \<in> set Object_prototype_members then MetaBuiltin k else MetaValue JUndefined)"

definition read_person :: "person_map \<Rightarrow> string \<Rightarrow> meta_value" where
  "read_person m k =
     (if k = ''__proto__''
      then (case replaced_prototype m of
              None \<Rightarrow> MetaBuiltin k
            | Some h \<Rightarrow> MetaValue (JObj h))
      else (case map_of (own_persons m) k of
              Some h \<Rightarrow> MetaValue (JObj h)
            | None \<Rightarrow>
                (case replaced_prototype m of
                   None \<Rightarrow> inherited_member k
                 | Some h \<Rightarrow>
                     (case map_of h k of
                        Some v \<Rightarrow> MetaValue v
                      | None \<Rightarrow> inherited_member k))))"

fun buildPersonMap_from :: "bucket list \<Rightarrow> person_map \<Rightarrow> error + person_map" where
  "buildPersonMap_from [] m = Inr m"
| "buildPersonMap_from (b # bs) m =
     (case person_hits b of
        [] \<Rightarrow> Inl TypeError
      | h # _ \<Rightarrow> buildPersonMap_from bs (assign_person m (key b) h))"

definition buildPersonMap :: "bucket list \<Rightarrow> error + person_map" where
  "buildPersonMap buckets =
     buildPersonMap_from buckets \<lparr>own_persons = [], replaced_prototype = None\<rparr>"

text \<open>
  The three lists of entries of \<^verbatim>\<open>_buildResponse\<close>, as \<^verbatim>\<open>_calculatePercentages\<close>
  returns them: \<^verbatim>\<open>people\<close> and \<^verbatim>\<open>parties\<close> on the keys of the filtered aggregation,
  \<^verbatim>\<open>timeline\<close> with \<^verbatim>\<open>combineKeys\<close>.
\<close>

definition people_entries :: "aggregations \<Rightarrow> percentage_entry list" where
  "people_entries a =
     calculatePercentages (parseAggregation (filteredPeople a))
       (parseAggregation (agg_people a)) False"

definition timeline_entries :: "aggregations \<Rightarrow> percentage_entry list" where
  "timeline_entries a =
     calculatePercentages (parseAggregation (filteredTimeline a))
       (parseAggregation (agg_timeline a)) True"

definition parties_entries :: "aggregations \<Rightarrow> percentage_entry list" where
  "parties_entries a =
     calculatePercentages (parseAggregation (filteredParties a))
       (parseAggregation (agg_parties a)) False"

text \<open>\<^verbatim>\<open>d.meta = personMap[d.key]\<close>\<close>

definition with_meta :: "person_map \<Rightarrow> percentage_entry \<Rightarrow> person_entry" where
  "with_meta personMap d =
     \<lparr>entry_key = entry_key d, count = count d, total' = total' d, pct = pct d,
      meta = read_person personMap (entry_key d)\<rparr>"

text \<open>
  \<^verbatim>\<open>_buildResponse\<close>. \<open>instant\<close> stands for \<^verbatim>\<open>moment(key).valueOf()\<close>, the instant a
  timeline key represents, and \<open>isCurrent\<close> for \<^verbatim>\<open>Parties.isCurrent\<close>. The array
  \<^verbatim>\<open>people\<close> is sorted in place twice: the view by percentage sorts what the view by
  count has left.
\<close>

definition buildResponse ::
  "(string \<Rightarrow> int) \<Rightarrow> (string \<Rightarrow> bool) \<Rightarrow> search_response \<Rightarrow> error + summary_result" where
  "buildResponse instant isCurrent aggResponse =
     (let a = response_aggregations aggResponse
      in case buildPersonMap (filteredPeople a) of
           Inl e \<Rightarrow> Inl e
         | Inr personMap \<Rightarrow>
             (let people = map (with_meta personMap) (people_entries a);
                  sorted_timeline =
                    js_sort (\<lambda>x y. Finite (of_int (instant (entry_key x) - instant (entry_key y))))
                      (timeline_entries a);
                  trimmed = slice 1 (- 1) sorted_timeline;
                  current = filter (\<lambda>e. isCurrent (entry_key e)) (parties_entries a);
                  by_count =
                    js_sort (\<lambda>x y. js_minus (to_number (count y)) (to_number (count x))) people;
                  by_pct = js_sort (\<lambda>x y. js_minus (pct y) (pct x)) by_count
              in Inr \<lparr>counts_total = response_total aggResponse,
                      timeline = trimmed,
                      parties = current,
                      people_count = slice 0 20 by_count,
                      people_pct = slice 0 20 by_pct\<rparr>))"

subsection \<open>Shaping hits\<close>

text \<open>
  \<^verbatim>\<open>_buildHit\<close>: the fields of the stored document are assigned over the three computed
  ones. \<^verbatim>\<open>text[0]\<close> of an empty array of fragments is \<^verbatim>\<open>undefined\<close>.
\<close>

definition buildHit :: "raw_hit \<Rightarrow> object" where
  "buildHit hit =
     Object_assign
       [(''id'', hit_id hit),
        (''score'', hit_score hit),
        (''highlight'',
           (case highlight hit of
              None \<Rightarrow> JStr []
            | Some fragments \<Rightarrow> (case fragments of [] \<Rightarrow> JUndefined | f # _ \<Rightarrow> JStr f)))]
       (source hit)"

definition buildHits :: "object \<Rightarrow> search_response \<Rightarrow> error + hits_result" where
  "buildHits opts response =
     (case response_hits response of
        None \<Rightarrow> Inl TypeError
      | Some hs \<Rightarrow>
          Inr \<lparr>query = get_prop opts ''query'',
               hits = map buildHit hs,
               hits_counts_total = response_total response\<rparr>)"

subsection \<open>The cached operations\<close>

text \<open>
  \<^verbatim>\<open>summary(opts)\<close> and \<^verbatim>\<open>hits(opts)\<close> take the service state and the caller's option
  object and return the promise together with the object, as the call leaves it, and the
  new state. What they cache is an object, which is truthy whatever it holds. The
  functions they hand to \<^verbatim>\<open>cached\<close> are \<open>fetch_summary\<close> and \<open>fetch_hits\<close>.
\<close>

definition fetch_summary ::
  "(request \<Rightarrow> error + search_response) \<Rightarrow> (string \<Rightarrow> int) \<Rightarrow> (string \<Rightarrow> bool) \<Rightarrow> object
     \<Rightarrow> request list \<Rightarrow> shaped outcome \<times> request list" where
  "fetch_summary es instant isCurrent opts sent =
     (let (response, sent') = es_search es (AggregationsQuery opts) sent
      in (then_promise response
            (\<lambda>r. map_sum id SummaryResult (buildResponse instant isCurrent r)),
          sent'))"

definition summary ::
  "(request \<Rightarrow> error + search_response) \<Rightarrow> (string \<Rightarrow> int) \<Rightarrow> (string \<Rightarrow> bool) \<Rightarrow> object
     \<Rightarrow> shaped api_state \<Rightarrow> shaped outcome \<times> object \<times> shaped api_state" where
  "summary es instant isCurrent opts s =
     (case intervalFrom opts of
        Inl e \<Rightarrow> (Throws e, opts, s)
      | Inr interval \<Rightarrow>
          (let opts' = set_prop opts ''interval'' interval;
               (r, s') = cached (\<lambda>v. True) ''summary'' (JObj opts')
                           (fetch_summary es instant isCurrent opts') s
           in (r, opts', s')))"

definition fetch_hits ::
  "(request \<Rightarrow> error + search_response) \<Rightarrow> object
     \<Rightarrow> request list \<Rightarrow> shaped outcome \<times> request list" where
  "fetch_hits es opts sent =
     (let (response, sent') = es_search es (HitsQuery opts) sent
      in (then_promise response (\<lambda>r. map_sum id HitsResult (buildHits opts r)), sent'))"

definition hits_op ::
  "(request \<Rightarrow> error + search_response) \<Rightarrow> object
     \<Rightarrow> shaped api_state \<Rightarrow> shaped outcome \<times> object \<times> shaped api_state" where
  "hits_op es opts s =
     (case intervalFrom opts of
        Inl e \<Rightarrow> (Throws e, opts, s)
      | Inr interval \<Rightarrow>
          (let opts' = set_prop opts ''interval'' interval;
               (r, s') = cached (\<lambda>v. True) ''hits'' (JObj opts') (fetch_hits es opts') s
           in (r, opts', s')))"

subsection \<open>The context of a speech\<close>

definition context_request :: "string \<Rightarrow> int \<Rightarrow> int \<Rightarrow> context_body" where
  "context_request ident start end =
     \<lparr>term_transcript = ident, range_gte = start, range_lte = end,
      body_size = end - start + 1, body_sort = ''order''\<rparr>"

definition getContext ::
  "(request \<Rightarrow> error + search_response) \<Rightarrow> string \<Rightarrow> int \<Rightarrow> int
     \<Rightarrow> 'v api_state \<Rightarrow> object list outcome \<times> 'v api_state" where
  "getContext es ident start end s =
     (let (response, sent) =
            es_search es (ContextQuery (context_request ident start end)) (requests s)
      in (then_promise response
            (\<lambda>r. Inr (case response_hits r of None \<Rightarrow> [] | Some hs \<Rightarrow> map source hs)),
          s\<lparr>requests := sent\<rparr>))"

text \<open>
  The index (Elasticsearch, reached through the client module) is outside the program.
  For a context search it is taken at its documented behaviour: of the stored documents
  it keeps those whose \<^verbatim>\<open>transcript\<close> is the term and whose \<^verbatim>\<open>order\<close> is a number
  within the range, sorts them ascending on the sort field and returns the first
  \<^verbatim>\<open>size\<close> of them, each as a hit around the stored document; a negative \<^verbatim>\<open>size\<close> is
  taken to be rejected. The properties of \<^verbatim>\<open>getContext\<close> below state this behaviour
  as their assumption on the index.
\<close>

definition number_field :: "string \<Rightarrow> object \<Rightarrow> int" where
  "number_field f d = (case get_prop d f of JNum n \<Rightarrow> n | _ \<Rightarrow> 0)"

definition matches_context :: "context_body \<Rightarrow> object \<Rightarrow> bool" where
  "matches_context body d =
     (get_prop d ''transcript'' = JStr (term_transcript body) \<and>
      (case get_prop d ''order'' of
         JNum n \<Rightarrow> range_gte body \<le> n \<and> n \<le> range_lte body
       | _ \<Rightarrow> False))"

definition no_aggregations :: aggregations where
  "no_aggregations =
     \<lparr>filteredPeople = [], agg_people = [], filteredTimeline = [], agg_timeline = [],
      filteredParties = [], agg_parties = []\<rparr>"

definition stored_hit :: "object \<Rightarrow> raw_hit" where
  "stored_hit d = \<lparr>hit_id = JUndefined, hit_score = JNull, highlight = None, source = d\<rparr>"

definition context_search :: "object list \<Rightarrow> context_body \<Rightarrow> error + search_response" where
  "context_search docs body =
     (if body_size body < 0
      then Inl (UpstreamQueryError ''size is expected to be higher or equal to 0'')
      else (let found = filter (matches_context body) docs
            in Inr
                 \<lparr>response_total = length found,
                  response_hits =
                    Some (map stored_hit
                       (take (nat (body_size body))
                          (sort_key (number_field (body_sort body)) found))),
                  response_aggregations = no_aggregations\<rparr>))"

definition index_of_docs :: "object list \<Rightarrow> request \<Rightarrow> error + search_response" where
  "index_of_docs docs req =
     (case req of
        ContextQuery body \<Rightarrow> context_search docs body
      | _ \<Rightarrow> Inl (UpstreamQueryError ''unsupported''))"

section \<open>Example data\<close>

text \<open>
  A small aggregation response: one speaker and two parties match the query, one of the
  parties (NKP) being no current party; the timeline has three yearly buckets of which
  one matches.
\<close>

definition example_aggregations :: aggregations where
  "example_aggregations =
     \<lparr>filteredPeople =
        [\<lparr>key_as_string = None, key = ''Erna Solberg'', doc_count = 2,
          person_hits = [[(''external_id'', JStr ''ES''), (''party'', JStr ''H'')]]\<rparr>],
      agg_people =
        [\<lparr>key_as_string = None, key = ''Erna Solberg'', doc_count = 8, person_hits = []\<rparr>,
         \<lparr>key_as_string = None, key = ''Jonas Gahr Store'', doc_count = 5, person_hits = []\<rparr>],
      filteredTimeline =
        [\<lparr>key_as_string = Some ''2014-01-01'', key = ''1388534400000'', doc_count = 2,
          person_hits = []\<rparr>],
      agg_timeline =
        [\<lparr>key_as_string = Some ''2013-01-01'', key = ''1356998400000'', doc_count = 4,
          person_hits = []\<rparr>,
         \<lparr>key_as_string = Some ''2014-01-01'', key = ''1388534400000'', doc_count = 5,
          person_hits = []\<rparr>,
         \<lparr>key_as_string = Some ''2015-01-01'', key = ''1420070400000'', doc_count = 4,
          person_hits = []\<rparr>],
      filteredParties =
        [\<lparr>key_as_string = None, key = ''H'', doc_count = 2, person_hits = []\<rparr>,
         \<lparr>key_as_string = None, key = ''NKP'', doc_count = 1, person_hits = []\<rparr>],
      agg_parties =
        [\<lparr>key_as_string = None, key = ''H'', doc_count = 8, person_hits = []\<rparr>,
         \<lparr>key_as_string = None, key = ''A'', doc_count = 5, person_hits = []\<rparr>,
         \<lparr>key_as_string = None, key = ''NKP'', doc_count = 3, person_hits = []\<rparr>]\<rparr>"

definition example_response :: search_response where
  "example_response =
     \<lparr>response_total = 2, response_hits = Some [],
      response_aggregations = example_aggregations\<rparr>"

definition example_index :: "request \<Rightarrow> error + search_response" where
  "example_index req = Inr example_response"

definition failing_index :: "request \<Rightarrow> error + search_response" where
  "failing_index req = Inl (UpstreamQueryError ''timeout'')"

definition example_instant :: "string \<Rightarrow> int" where
  "example_instant k =
     (case map_of [(''2013-01-01'', 1356991200000), (''2014-01-01'', 1388527200000),
                   (''2015-01-01'', 1420063200000)] k of
        None \<Rightarrow> 0
      | Some t \<Rightarrow> t)"

definition example_current :: "string \<Rightarrow> bool" where
  "example_current k = (k \<in> set [''A'', ''H''])"

definition example_summary :: summary_result where
  "example_summary =
     \<lparr>counts_total = 2,
      timeline = [\<lparr>entry_key = ''2014-01-01'', count = Number 2, total' = Number 5, pct = Finite 40\<rparr>],
      parties = [\<lparr>entry_key = ''H'', count = Number 2, total' = Number 8, pct = Finite 25\<rparr>],
      people_count =
        [\<lparr>entry_key = ''Erna Solberg'', count = Number 2, total' = Number 8, pct = Finite 25,
          meta = MetaValue (JObj [(''external_id'', JStr ''ES''), (''party'', JStr ''H'')])\<rparr>],
      people_pct =
        [\<lparr>entry_key = ''Erna Solberg'', count = Number 2, total' = Number 8, pct = Finite 25,
          meta = MetaValue (JObj [(''external_id'', JStr ''ES''), (''party'', JStr ''H'')])\<rparr>]\<rparr>"

definition empty_state :: "shaped api_state" where
  "empty_state = \<lparr>cache = [], requests = []\<rparr>"

text \<open>
  Two small indexes: a transcript of ten speeches, stored in no particular order, and a
  transcript in which two documents carry the same order.
\<close>

definition ten_speeches :: "object list" where
  "ten_speeches =
     map (\<lambda>n. [(''transcript'', JStr ''T1''), (''order'', JNum n)])
       [10, 9, 1, 2, 3, 4, 5, 6, 7, 8]"

definition split_speech :: "object list" where
  "split_speech =
     [[(''transcript'', JStr ''T1''), (''order'', JNum 3), (''text'', JStr ''first half'')],
      [(''transcript'', JStr ''T1''), (''order'', JNum 3), (''text'', JStr ''second half'')]]"

section \<open>Arrays and objects\<close>

lemma index_from_notin: "x \<notin> set xs \<Longrightarrow> index_from i xs x = - 1"
  by (induction xs arbitrary: i) auto

lemma index_from_bounds:
  "x \<in> set xs \<Longrightarrow> i \<le> index_from i xs x \<and> index_from i xs x < i + int (length xs)"
proof (induction xs arbitrary: i)
  case Nil
  then show ?case by simp
next
  case (Cons y ys)
  show ?case
  proof (cases "y = x")
    case True
    then show ?thesis by simp
  next
    case False
    with Cons.prems have "x \<in> set ys" by simp
    from Cons.IH [OF this, of "i + 1"] False show ?thesis by simp
  qed
qed

lemma index_from_append:
  "index_from i (pre @ xs) x =
     (if x \<in> set pre then index_from i pre x else index_from (i + int (length pre)) xs x)"
  by (induction pre arbitrary: i) (auto simp: algebra_simps)

lemma indexOf_minus_one: "indexOf xs x = - 1 \<longleftrightarrow> x \<notin> set xs"
  using index_from_bounds [of x xs 0] index_from_notin [of x xs 0]
  by (auto simp: indexOf_def)

lemma set_first_occurrences: "set (first_occurrences xs) = set xs"
  by (induction xs) auto

lemma distinct_first_occurrences: "distinct (first_occurrences xs)"
  by (induction xs) (auto simp: set_first_occurrences)

text \<open>
  Filtering on \<^verbatim>\<open>keys.indexOf(k) === i\<close> keeps the first occurrence of every key. The
  statement is generalised over the part of the array already passed.
\<close>

lemma first_kept_general:
  "map fst (filter (\<lambda>(k, i). index_from 0 (pre @ xs) k = i)
              (zip xs (map int [length pre..<length pre + length xs])))
     = filter (\<lambda>k. k \<notin> set pre) (first_occurrences xs)"
proof (induction xs arbitrary: pre)
  case Nil
  then show ?case by simp
next
  case (Cons y ys)
  have upt: "[length pre..<length pre + length (y # ys)] =
      length pre # [length (pre @ [y])..<length (pre @ [y]) + length ys]"
    by (subst upt_rec) simp
  have head: "index_from 0 (pre @ y # ys) y = int (length pre) \<longleftrightarrow> y \<notin> set pre"
    using index_from_bounds [of y pre 0] by (auto simp: index_from_append)
  have rest: "map fst (filter (\<lambda>(k, i). index_from 0 (pre @ y # ys) k = i)
              (zip ys (map int [length (pre @ [y])..<length (pre @ [y]) + length ys])))
     = filter (\<lambda>k. k \<notin> set (pre @ [y])) (first_occurrences ys)"
    using Cons.IH [of "pre @ [y]"] by simp
  have flt: "filter (\<lambda>k. k \<notin> set pre) (filter (\<lambda>z. z \<noteq> y) zs) =
      filter (\<lambda>k. k \<notin> set (pre @ [y])) zs" for zs
    by (induction zs) auto
  show ?case
    unfolding upt using head rest by (simp add: flt)
qed

lemma filter_indexed_first:
  "filter_indexed (\<lambda>k i. indexOf keys k = i) keys = first_occurrences keys"
  using first_kept_general [of "[]" keys] by (simp add: filter_indexed_def indexOf_def)

lemma insert_by_difference:
  "insert_by (\<lambda>x y. Finite (of_int (f x - f y))) x ys = insort_key f x ys"
  by (induction ys) auto

lemma js_sort_difference:
  "js_sort (\<lambda>x y. Finite (of_int (f x - f y))) xs = sort_key f xs"
  by (induction xs)
    (simp_all add: js_sort_def insert_by_difference sort_key_def del: of_int_diff)









text \<open>
  \<^verbatim>\<open>Object.keys\<close> lists every own property once, whatever the order.
\<close>

lemma set_Object_keys: "set (Object_keys ob) = fst ` set ob"
  by (auto simp: Object_keys_def Let_def)


lemma Object_keys_plain:
  "\<forall>k \<in> fst ` set ob. \<not> is_array_index k \<Longrightarrow> Object_keys ob = map fst ob"
proof -
  assume plain: "\<forall>k \<in> fst ` set ob. \<not> is_array_index k"
  then have "filter is_array_index (map fst ob) = []"
    by (auto simp: filter_empty_conv)
  moreover have "filter (\<lambda>k. \<not> is_array_index k) (map fst ob) = map fst ob"
    using plain by (auto simp: filter_id_conv)
  ultimately show ?thesis by (simp add: Object_keys_def Let_def)
qed

lemma slice_trim: "slice 1 (- 1) xs = butlast (tl xs)"
proof (cases xs)
  case Nil
  then show ?thesis by (simp add: slice_def)
next
  case (Cons y ys)
  then show ?thesis
    by (simp add: slice_def Let_def butlast_conv_take nat_diff_distrib')
qed


lemma get_prop_set_prop: "get_prop (set_prop ob k v) k = v"
  by (simp add: get_prop_def set_prop_def update_conv')

lemma set_prop_twice: "set_prop (set_prop ob k v) k v = set_prop ob k v"
  by (simp add: set_prop_def)


section \<open>Serialisation\<close>

text \<open>
  The escapes of \<^verbatim>\<open>JSON.stringify\<close> form a prefix code, a quoted string ends at its
  closing quote, and a decimal number ends where the digits end. So the text of a scalar
  member determines the member, and the text of a list of members determines the list.
\<close>

lemma hex_digit_inj:
  "m < 16 \<Longrightarrow> n < 16 \<Longrightarrow> hex_digit m = hex_digit n \<Longrightarrow> m = n"
proof -
  assume m: "m < 16" and n: "n < 16" and eq: "hex_digit m = hex_digit n"
  have d: "distinct ''0123456789abcdef''" by simp
  have "''0123456789abcdef'' ! m = ''0123456789abcdef'' ! n"
    using eq m n by (simp add: hex_digit_def)
  with nth_eq_iff_index_eq [OF d, of m n] m n show ?thesis by simp
qed

lemma control_char_inj:
  fixes c d :: char
  assumes "(of_char c :: nat) < 32" and "(of_char d :: nat) < 32"
    and hi: "hex_digit (of_char c div 16) = hex_digit (of_char d div 16)"
    and lo: "hex_digit (of_char c mod 16) = hex_digit (of_char d mod 16)"
  shows "c = d"
proof -
  let ?m = "of_char c :: nat" and ?n = "of_char d :: nat"
  have "?m div 16 = ?n div 16"
    using assms(1,2) by (intro hex_digit_inj [OF _ _ hi]) simp_all
  moreover have "?m mod 16 = ?n mod 16"
    by (intro hex_digit_inj [OF _ _ lo]) simp_all
  ultimately have "?m = ?n" by (metis div_mult_mod_eq)
  then show ?thesis by simp
qed

lemma quote_char_prefix_code:
  "quote_char c @ r = quote_char d @ r' \<Longrightarrow> c = d \<and> r = r'"
  unfolding quote_char_def
  by (auto split: if_splits dest: control_char_inj)

lemma quote_char_no_quote: "quote_char c @ r \<noteq> CHR 0x22 # r'"
  unfolding quote_char_def by (auto split: if_splits)

lemma quoted_body_prefix_code:
  "concat (map quote_char s) @ CHR 0x22 # r = concat (map quote_char t) @ CHR 0x22 # r'
     \<Longrightarrow> s = t \<and> r = r'"
proof (induction s arbitrary: t)
  case Nil
  show ?case
  proof (cases t)
    case Nil
    with Nil.prems show ?thesis by simp
  next
    case (Cons d t')
    with Nil.prems quote_char_no_quote [of d "concat (map quote_char t') @ CHR 0x22 # r'" r]
    show ?thesis by simp
  qed
next
  case (Cons c s)
  show ?case
  proof (cases t)
    case Nil
    with Cons.prems quote_char_no_quote [of c "concat (map quote_char s) @ CHR 0x22 # r" r']
    show ?thesis by simp
  next
    case (Cons d t')
    with Cons.prems
    have "quote_char c @ (concat (map quote_char s) @ CHR 0x22 # r) =
          quote_char d @ (concat (map quote_char t') @ CHR 0x22 # r')"
      by simp
    from quote_char_prefix_code [OF this] Cons.IH [of t'] Cons show ?thesis by simp
  qed
qed

lemma quote_prefix_code: "quote s @ r = quote t @ r' \<Longrightarrow> s = t \<and> r = r'"
  using quoted_body_prefix_code [of s r t r'] by (simp add: quote_def)


lemma digits_Cons: "\<exists>c cs. digits n = c # cs \<and> c \<in> set ''0123456789''"
proof (induction n rule: digits.induct)
  case (1 n)
  show ?case
  proof (cases "n < 10")
    case True
    then have "''0123456789'' ! n \<in> set ''0123456789''" by (intro nth_mem) simp
    with True show ?thesis by (subst digits.simps) simp
  next
    case False
    with "1.IH" obtain c cs where "digits (n div 10) = c # cs" "c \<in> set ''0123456789''"
      by blast
    with False show ?thesis by (subst digits.simps) simp
  qed
qed

lemma digits_chars: "set (digits n) \<subseteq> set ''0123456789''"
proof (induction n rule: digits.induct)
  case (1 n)
  have last: "''0123456789'' ! (n mod 10) \<in> set ''0123456789''"
    by (intro nth_mem) simp
  show ?case
  proof (cases "n < 10")
    case True
    with last show ?thesis by (subst digits.simps) simp
  next
    case False
    with "1.IH" last show ?thesis by (subst digits.simps) simp
  qed
qed

lemma digit_inj:
  "a < 10 \<Longrightarrow> b < 10 \<Longrightarrow> ''0123456789'' ! a = ''0123456789'' ! b \<Longrightarrow> a = b"
proof -
  assume a: "a < 10" and b: "b < 10" and eq: "''0123456789'' ! a = ''0123456789'' ! b"
  have d: "distinct ''0123456789''" by simp
  from nth_eq_iff_index_eq [OF d, of a b] a b eq show ?thesis by simp
qed

lemma digits_inj: "digits n = digits m \<Longrightarrow> n = m"
proof (induction n arbitrary: m rule: digits.induct)
  case (1 n)
  obtain c cs where tens: "digits (m div 10) = c # cs" using digits_Cons by blast
  obtain c' cs' where tens': "digits (n div 10) = c' # cs'" using digits_Cons by blast
  show ?case
  proof (cases "n < 10")
    case small: True
    show ?thesis
    proof (cases "m < 10")
      case True
      with small "1.prems" have "''0123456789'' ! n = ''0123456789'' ! m"
        by (simp add: digits.simps [of n] digits.simps [of m])
      with small True show ?thesis by (rule digit_inj)
    next
      case False
      with small "1.prems" tens show ?thesis
        by (simp add: digits.simps [of n] digits.simps [of m])
    qed
  next
    case large: False
    show ?thesis
    proof (cases "m < 10")
      case True
      with large "1.prems" tens' show ?thesis
        by (simp add: digits.simps [of n] digits.simps [of m])
    next
      case False
      with large "1.prems"
      have eq: "digits (n div 10) = digits (m div 10)"
        and last: "''0123456789'' ! (n mod 10) = ''0123456789'' ! (m mod 10)"
        by (simp_all add: digits.simps [of n] digits.simps [of m])
      from "1.IH" [OF large eq] have "n div 10 = m div 10" .
      moreover from last have "n mod 10 = m mod 10" by (intro digit_inj) simp_all
      ultimately show ?thesis by (metis div_mult_mod_eq)
    qed
  qed
qed

lemma split_before_other:
  assumes "set xs \<subseteq> A" and "set ys \<subseteq> A"
    and "r = [] \<or> hd r \<notin> A" and "r' = [] \<or> hd r' \<notin> A"
    and "xs @ r = ys @ r'"
  shows "xs = ys \<and> r = r'"
  using assms
proof (induction xs arbitrary: ys)
  case Nil
  show ?case
  proof (cases ys)
    case Nil
    with Nil.prems show ?thesis by simp
  next
    case (Cons y ys')
    with Nil.prems have "hd r = y" and "y \<in> A" and "r \<noteq> []" by auto
    with Nil.prems show ?thesis by simp
  qed
next
  case (Cons x xs)
  show ?case
  proof (cases ys)
    case Nil
    with Cons.prems have "hd r' = x" and "x \<in> A" and "r' \<noteq> []" by auto
    with Cons.prems show ?thesis by simp
  next
    case (Cons y ys')
    with Cons.prems have "x = y" and "xs @ r = ys' @ r'" and "set xs \<subseteq> A" and "set ys' \<subseteq> A"
      by simp_all
    with Cons.IH [of ys'] Cons.prems(3,4) Cons show ?thesis by simp
  qed
qed

lemma closes_value_not_digit:
  "closes_value r \<Longrightarrow> r = [] \<or> hd r \<notin> set ''0123456789''"
  by (cases r) (auto simp: closes_value_def)

lemma digits_delimited:
  assumes "closes_value r" and "closes_value r'" and "digits n @ r = digits m @ r'"
  shows "n = m \<and> r = r'"
proof -
  from split_before_other [OF digits_chars digits_chars
      closes_value_not_digit [OF assms(1)] closes_value_not_digit [OF assms(2)] assms(3)]
  show ?thesis by (auto dest: digits_inj)
qed

lemma number_delimited:
  assumes "closes_value r" and "closes_value r'"
    and "number_to_string n @ r = number_to_string m @ r'"
  shows "n = m \<and> r = r'"
proof -
  obtain c cs where n: "digits (nat n) = c # cs" "c \<in> set ''0123456789''"
    using digits_Cons by blast
  obtain d ds where m: "digits (nat m) = d # ds" "d \<in> set ''0123456789''"
    using digits_Cons by blast
  show ?thesis
  proof (cases "n < 0")
    case neg: True
    show ?thesis
    proof (cases "m < 0")
      case True
      with neg assms(3) have "digits (nat (- n)) @ r = digits (nat (- m)) @ r'"
        by (simp add: number_to_string_def)
      from digits_delimited [OF assms(1,2) this] neg True show ?thesis by auto
    next
      case False
      with neg assms(3) m show ?thesis by (auto simp: number_to_string_def)
    qed
  next
    case pos: False
    show ?thesis
    proof (cases "m < 0")
      case True
      with pos assms(3) n show ?thesis by (auto simp: number_to_string_def)
    next
      case False
      with pos assms(3) have "digits (nat n) @ r = digits (nat m) @ r'"
        by (simp add: number_to_string_def)
      from digits_delimited [OF assms(1,2) this] pos False show ?thesis by auto
    qed
  qed
qed


lemma number_first: "\<exists>c cs. number_to_string n = c # cs \<and> c \<in> set ''-0123456789''"
proof -
  obtain c cs where "digits (nat n) = c # cs" "c \<in> set ''0123456789''"
    using digits_Cons by blast
  moreover obtain d ds where "digits (nat (- n)) = d # ds" using digits_Cons by blast
  ultimately show ?thesis by (auto simp: number_to_string_def)
qed

lemma number_head: "number_to_string n @ r = c # r' \<Longrightarrow> c \<in> set ''-0123456789''"
  using number_first [of n] by auto

lemma number_not_literal:
  "number_to_string n @ r \<noteq> CHR ''n'' # x"
  "number_to_string n @ r \<noteq> CHR ''t'' # x"
  "number_to_string n @ r \<noteq> CHR ''f'' # x"
  "number_to_string n @ r \<noteq> CHR 0x22 # x"
  "CHR ''n'' # x \<noteq> number_to_string n @ r"
  "CHR ''t'' # x \<noteq> number_to_string n @ r"
  "CHR ''f'' # x \<noteq> number_to_string n @ r"
  "CHR 0x22 # x \<noteq> number_to_string n @ r"
  using number_head [of n r "CHR ''n''" x] number_head [of n r "CHR ''t''" x]
    number_head [of n r "CHR ''f''" x] number_head [of n r "CHR 0x22" x]
  by auto

lemma scalar_delimited:
  assumes "scalar v" and "scalar w"
    and "JSON_stringify v = Some t" and "JSON_stringify w = Some u"
    and "closes_value r" and "closes_value r'"
    and "t @ r = u @ r'"
  shows "v = w \<and> r = r'"
proof (cases v)
  case JUndefined
  with assms(3) show ?thesis by simp
next
  case JNull
  with assms(2,3,4,7) show ?thesis
    by (cases w) (auto simp: quote_def number_not_literal split: if_splits)
next
  case (JBool b)
  with assms(2,3,4,7) show ?thesis
    by (cases w) (auto simp: quote_def number_not_literal split: if_splits)
next
  case (JNum n)
  with assms show ?thesis
    by (cases w) (auto simp: quote_def number_not_literal split: if_splits dest: number_delimited)
next
  case (JStr s)
  with assms(2,3,4,7) show ?thesis
    by (cases w)
      (auto simp: quote_def number_not_literal split: if_splits dest: quoted_body_prefix_code)
next
  case (JArr xs)
  with assms(1) show ?thesis by simp
next
  case (JObj ps)
  with assms(1) show ?thesis by simp
qed

lemma stringify_None: "JSON_stringify v = None \<longleftrightarrow> v = JUndefined"
  by (cases v) simp_all

lemma members_defined:
  "concat (map (\<lambda>(k, v). case JSON_stringify v of None \<Rightarrow> []
                          | Some t \<Rightarrow> [quote k @ '':'' @ t]) ps)
     = map member_string (defined_members ps)"
  by (induction ps)
    (auto simp: member_string_def defined_members_def stringify_None split: option.splits)

lemma stringify_object:
  "JSON_stringify (JObj ps) =
     Some (''{'' @ join '','' (map member_string (defined_members ps)) @ ''}'')"
  by (simp add: members_defined)

lemma member_delimited:
  assumes "scalar (snd p)" and "snd p \<noteq> JUndefined"
    and "scalar (snd q)" and "snd q \<noteq> JUndefined"
    and "closes_value r" and "closes_value r'"
    and eq: "member_string p @ r = member_string q @ r'"
  shows "p = q \<and> r = r'"
proof -
  obtain t where t: "JSON_stringify (snd p) = Some t"
    using assms(2) by (cases "JSON_stringify (snd p)") (simp_all add: stringify_None)
  obtain u where u: "JSON_stringify (snd q) = Some u"
    using assms(4) by (cases "JSON_stringify (snd q)") (simp_all add: stringify_None)
  from eq t u have "quote (fst p) @ ('':'' @ t @ r) = quote (fst q) @ ('':'' @ u @ r')"
    by (simp add: member_string_def)
  from quote_prefix_code [OF this] have k: "fst p = fst q" and "t @ r = u @ r'" by simp_all
  from scalar_delimited [OF assms(1,3) t u assms(5,6) this(2)] k
  show ?thesis by (simp add: prod_eq_iff)
qed

lemma join_Cons: "join sep (x # xs) = x @ (if xs = [] then [] else sep @ join sep xs)"
  by (cases xs) simp_all

lemma member_string_head: "\<exists>cs. member_string p = CHR 0x22 # cs"
  by (simp add: member_string_def quote_def)

lemma members_injective:
  assumes "\<forall>p \<in> set ps. scalar (snd p) \<and> snd p \<noteq> JUndefined"
    and "\<forall>q \<in> set qs. scalar (snd q) \<and> snd q \<noteq> JUndefined"
    and "join '','' (map member_string ps) @ CHR ''}'' # z =
         join '','' (map member_string qs) @ CHR ''}'' # z'"
  shows "ps = qs"
  using assms
proof (induction ps arbitrary: qs)
  case Nil
  show ?case
  proof (cases qs)
    case Nil
    then show ?thesis by simp
  next
    case (Cons q qs')
    with Nil.prems member_string_head [of q] show ?thesis by (auto simp: join_Cons)
  qed
next
  case (Cons p ps)
  show ?case
  proof (cases qs)
    case Nil
    with Cons.prems member_string_head [of p] show ?thesis by (auto simp: join_Cons)
  next
    case (Cons q qs')
    let ?r = "(if ps = [] then [] else '','' @ join '','' (map member_string ps)) @ CHR ''}'' # z"
    let ?r' = "(if qs' = [] then [] else '','' @ join '','' (map member_string qs')) @ CHR ''}'' # z'"
    have r: "closes_value ?r" and r': "closes_value ?r'" by (simp_all add: closes_value_def)
    from Cons.prems(3) Cons have "member_string p @ ?r = member_string q @ ?r'"
      by (simp add: join_Cons)
    with member_delimited [of p q ?r ?r'] Cons.prems(1,2) Cons r r'
    have pq: "p = q" and rest: "?r = ?r'" by simp_all
    have "ps = qs'"
    proof (cases "ps = []")
      case True
      with rest show ?thesis by (cases "qs' = []") simp_all
    next
      case False
      with rest have ne: "qs' \<noteq> []" by (cases "qs' = []") simp_all
      with False rest
      have "join '','' (map member_string ps) @ CHR ''}'' # z =
            join '','' (map member_string qs') @ CHR ''}'' # z'"
        by simp
      with Cons.IH [of qs'] Cons.prems(1,2) Cons show ?thesis by simp
    qed
    with pq Cons show ?thesis by simp
  qed
qed

lemma get_prop_defined:
  "distinct (map fst ob) \<Longrightarrow> get_prop (defined_members ob) k = get_prop ob k"
proof (induction ob)
  case Nil
  then show ?case by (simp add: defined_members_def)
next
  case (Cons p ob)
  then have "k = fst p \<Longrightarrow> map_of (filter (\<lambda>p. snd p \<noteq> JUndefined) ob) k = None"
    by (auto simp: map_of_eq_None_iff)
  with Cons show ?case
    by (cases p) (auto simp: get_prop_def defined_members_def)
qed

section \<open>The cache\<close>

lemma map_of_filter_other:
  "x \<noteq> k \<Longrightarrow> map_of (filter (\<lambda>p. fst p \<noteq> k) c) x = map_of c x"
  by (induction c) auto

lemma map_of_lru_get: "map_of (snd (lru_get k c)) = map_of c"
proof (cases "map_of c k")
  case None
  then show ?thesis by (simp add: lru_get_def)
next
  case (Some v)
  have "map_of ((k, v) # filter (\<lambda>p. fst p \<noteq> k) c) x = map_of c x" for x
    using Some by (cases "x = k") (simp_all add: map_of_filter_other)
  then show ?thesis using Some by (auto simp: lru_get_def)
qed

lemma lru_get_absent: "map_of c k = None \<Longrightarrow> lru_get k c = (None, c)"
  by (simp add: lru_get_def)

lemma lru_set_stored: "map_of (lru_set k v c) k = Some v"
  by (simp add: lru_set_def LRU_MAX_def take_Cons')

lemma lru_set_front: "hd (lru_set k v c) = (k, v)"
  by (simp add: lru_set_def LRU_MAX_def take_Cons')

lemma lru_get_front: "map_of c k = Some v \<Longrightarrow> hd (snd (lru_get k c)) = (k, v)"
  by (simp add: lru_get_def)

text \<open>Reading the entry that was stored last finds it and moves nothing.\<close>

lemma lru_get_after_set: "lru_get k (lru_set k v c) = (Some v, lru_set k v c)"
proof -
  have "filter (\<lambda>p. fst p \<noteq> k) (take n (filter (\<lambda>p. fst p \<noteq> k) c)) =
      take n (filter (\<lambda>p. fst p \<noteq> k) c)" for n
    by (rule filter_True) (auto dest: in_set_takeD)
  then show ?thesis
    by (simp add: lru_get_def lru_set_def LRU_MAX_def take_Cons')
qed

lemma cached_hit:
  "map_of (cache s) (cacheKey name data) = Some v \<Longrightarrow> is_truthy v \<Longrightarrow>
     cached is_truthy name data fetchFunc s =
       (Resolved v, s\<lparr>cache := snd (lru_get (cacheKey name data) (cache s))\<rparr>)"
  by (simp add: cached_def Let_def lru_get_def)

lemma cached_miss:
  "(\<And>v. map_of (cache s) (cacheKey name data) = Some v \<Longrightarrow> \<not> is_truthy v) \<Longrightarrow>
     cached is_truthy name data fetchFunc s =
       fetch_and_store (cacheKey name data) fetchFunc
         (snd (lru_get (cacheKey name data) (cache s))) s"
  by (auto simp: cached_def Let_def lru_get_def split: option.splits)

lemma fetch_and_store_failed:
  "fetchFunc (requests s) = (r, sent) \<Longrightarrow> r = Rejected e \<or> r = Throws e \<Longrightarrow>
     fetch_and_store k fetchFunc c s = (r, s\<lparr>cache := c, requests := sent\<rparr>)"
  by (auto simp: fetch_and_store_def)

lemma fetch_and_store_resolved:
  "fetchFunc (requests s) = (Resolved v, sent) \<Longrightarrow>
     fetch_and_store k fetchFunc c s =
       (Resolved v, s\<lparr>cache := lru_set k v c, requests := sent\<rparr>)"
  by (auto simp: fetch_and_store_def cacheResponse_def)

text \<open>Whatever way \<open>cached\<close> resolves, the value is then in the cache, most recent.\<close>

lemma cached_resolved_stored:
  assumes "cached is_truthy name data fetchFunc s = (Resolved v, s1)"
  shows "map_of (cache s1) (cacheKey name data) = Some v"
    and "hd (cache s1) = (cacheKey name data, v)"
proof -
  let ?k = "cacheKey name data"
  have "map_of (cache s1) ?k = Some v \<and> hd (cache s1) = (?k, v)"
  proof (cases "\<exists>w. map_of (cache s) ?k = Some w \<and> is_truthy w")
    case True
    then obtain w where w: "map_of (cache s) ?k = Some w" "is_truthy w" by blast
    from cached_hit [of s name data w is_truthy fetchFunc] w assms
    have "w = v" and s1: "s1 = s\<lparr>cache := snd (lru_get ?k (cache s))\<rparr>" by simp_all
    with w show ?thesis by (simp add: map_of_lru_get lru_get_front)
  next
    case False
    then have "cached is_truthy name data fetchFunc s =
        fetch_and_store ?k fetchFunc (snd (lru_get ?k (cache s))) s"
      by (intro cached_miss) blast
    with assms
    have fs: "fetch_and_store ?k fetchFunc (snd (lru_get ?k (cache s))) s = (Resolved v, s1)"
      by simp
    obtain r sent where f: "fetchFunc (requests s) = (r, sent)"
      by (cases "fetchFunc (requests s)")
    show ?thesis
    proof (cases r)
      case (Resolved w)
      with f fs fetch_and_store_resolved [of fetchFunc s w sent ?k]
      show ?thesis by (auto simp: lru_set_stored lru_set_front)
    next
      case (Throws e)
      with f fs fetch_and_store_failed [of fetchFunc s r sent e ?k] show ?thesis by auto
    next
      case (Rejected e)
      with f fs fetch_and_store_failed [of fetchFunc s r sent e ?k] show ?thesis by auto
    qed
  qed
  then show "map_of (cache s1) ?k = Some v" and "hd (cache s1) = (?k, v)" by simp_all
qed

section \<open>Interval normalisation\<close>

lemma allowed_truthy: "v \<in> set ALLOWED_INTERVALS \<Longrightarrow> truthy v"
  by (auto simp: ALLOWED_INTERVALS_def)

lemma intervalFrom_Inr:
  "intervalFrom opts = Inr v \<longleftrightarrow>
     v = js_or (get_prop opts ''interval'') (JStr ''month'') \<and> v \<in> set ALLOWED_INTERVALS"
  by (auto simp: intervalFrom_def Let_def indexOf_minus_one)

lemma intervalFrom_Inl:
  "intervalFrom opts = Inl e \<longleftrightarrow>
     e = InvalidIntervalError (js_or (get_prop opts ''interval'') (JStr ''month'')) \<and>
     js_or (get_prop opts ''interval'') (JStr ''month'') \<notin> set ALLOWED_INTERVALS"
  by (auto simp: intervalFrom_def Let_def indexOf_minus_one)

lemma intervalFrom_normalised:
  "intervalFrom opts = Inr v \<Longrightarrow> intervalFrom (set_prop opts ''interval'' v) = Inr v"
proof -
  assume "intervalFrom opts = Inr v"
  then have mem: "v \<in> set ALLOWED_INTERVALS" by (auto simp: intervalFrom_Inr)
  then have "js_or (get_prop (set_prop opts ''interval'' v) ''interval'') (JStr ''month'') = v"
    by (simp add: get_prop_set_prop js_or_def allowed_truthy)
  with mem show ?thesis by (auto simp: intervalFrom_Inr)
qed

lemma summary_accepted:
  "intervalFrom opts = Inr v \<Longrightarrow>
     summary es instant isCurrent opts s =
       (fst (cached (\<lambda>v. True) ''summary'' (JObj (set_prop opts ''interval'' v))
               (fetch_summary es instant isCurrent (set_prop opts ''interval'' v)) s),
        set_prop opts ''interval'' v,
        snd (cached (\<lambda>v. True) ''summary'' (JObj (set_prop opts ''interval'' v))
               (fetch_summary es instant isCurrent (set_prop opts ''interval'' v)) s))"
  by (simp add: summary_def Let_def case_prod_beta)

lemma hits_accepted:
  "intervalFrom opts = Inr v \<Longrightarrow>
     hits_op es opts s =
       (fst (cached (\<lambda>v. True) ''hits'' (JObj (set_prop opts ''interval'' v))
               (fetch_hits es (set_prop opts ''interval'' v)) s),
        set_prop opts ''interval'' v,
        snd (cached (\<lambda>v. True) ''hits'' (JObj (set_prop opts ''interval'' v))
               (fetch_hits es (set_prop opts ''interval'' v)) s))"
  by (simp add: hits_op_def Let_def case_prod_beta)

section \<open>Percentages\<close>






lemma fold_assign_count_keys:
  "fst ` set (fold (\<lambda>b counts. assign_count counts (f b) (g b)) bs acc) =
     fst ` set acc \<union> (f ` set bs - {''__proto__''})"
  by (induction bs arbitrary: acc) (auto simp: assign_count_def set_prop_def dom_update)


lemma parseAggregation_keys:
  "set (Object_keys (parseAggregation bs)) = bucket_name ` set bs - {''__proto__''}"
  using fold_assign_count_keys [of bucket_name doc_count bs "[]"]
  by (simp add: parseAggregation_def set_Object_keys)



lemma entry_keys_calculatePercentages:
  "map entry_key (calculatePercentages sub whole combineKeys) = percentage_keys sub whole combineKeys"
  by (simp add: calculatePercentages_def Let_def comp_def)


lemma percentage_keys_combined:
  "percentage_keys sub whole True = first_occurrences (Object_keys sub @ Object_keys whole)"
  by (simp add: percentage_keys_def Let_def filter_indexed_first)



lemma timeline_entry_keys:
  "map entry_key (timeline_entries a) =
     first_occurrences (Object_keys (parseAggregation (filteredTimeline a)) @
                        Object_keys (parseAggregation (agg_timeline a)))"
  by (simp add: timeline_entries_def entry_keys_calculatePercentages percentage_keys_combined)

lemma set_timeline_entry_keys:
  "set (map entry_key (timeline_entries a)) =
     (bucket_name ` set (filteredTimeline a) \<union> bucket_name ` set (agg_timeline a)) - {''__proto__''}"
  unfolding timeline_entry_keys
  by (auto simp: set_first_occurrences parseAggregation_keys)

lemma length_timeline_entries:
  "length (timeline_entries a) =
     card ((bucket_name ` set (filteredTimeline a) \<union> bucket_name ` set (agg_timeline a))
           - {''__proto__''})"
proof -
  have "length (timeline_entries a) = length (map entry_key (timeline_entries a))" by simp
  also have "\<dots> = card (set (map entry_key (timeline_entries a)))"
    unfolding timeline_entry_keys by (simp add: distinct_card distinct_first_occurrences)
  finally show ?thesis by (simp only: set_timeline_entry_keys)
qed


section \<open>The example, evaluated\<close>

lemma example_buildResponse:
  "buildResponse example_instant example_current example_response = Inr example_summary"
  by code_simp



section \<open>The summary\<close>


lemma buildResponse_timeline:
  "buildResponse instant isCurrent r = Inr res \<Longrightarrow>
     timeline res =
       butlast (tl (sort_key (\<lambda>e. instant (entry_key e))
                      (timeline_entries (response_aggregations r))))"
  by (auto simp: buildResponse_def Let_def js_sort_difference slice_trim simp del: of_int_diff
      split: sum.splits)








section \<open>The timeline\<close>

text \<open>
  C6 (amended). When the time buckets of a response have \<open>n + 1\<close> different keys (a
  bucket named \<^verbatim>\<open>__proto__\<close>, which makes no key, not counted), the
  timeline that \<^verbatim>\<open>_buildResponse\<close> returns is the computed entries sorted ascending by
  the instant of their key, without the first and the last: its entry \<open>i\<close> is entry
  \<open>i + 1\<close> of the sorted sequence, it is sorted, has \<open>n - 1\<close> entries, and is empty
  exactly when \<open>n \<le> 1\<close>.
\<close>

theorem timeline_trimmed:
  assumes built: "buildResponse instant isCurrent r = Inr res"
    and buckets:
      "card ((bucket_name ` set (filteredTimeline (response_aggregations r)) \<union>
              bucket_name ` set (agg_timeline (response_aggregations r))) - {''__proto__''})
         = n + 1"
  shows "timeline res =
           butlast (tl (sort_key (\<lambda>e. instant (entry_key e))
                          (timeline_entries (response_aggregations r)))) \<and>
         (\<forall>i < n - 1.
            timeline res ! i =
              sort_key (\<lambda>e. instant (entry_key e))
                (timeline_entries (response_aggregations r)) ! (i + 1)) \<and>
         sorted (map (\<lambda>e. instant (entry_key e)) (timeline res)) \<and>
         length (timeline res) = n - 1 \<and>
         (timeline res = [] \<longleftrightarrow> n \<le> 1)"
proof -
  let ?s = "sort_key (\<lambda>e. instant (entry_key e)) (timeline_entries (response_aggregations r))"
  have eq: "timeline res = butlast (tl ?s)"
    using built by (rule buildResponse_timeline)
  have "sorted (map (\<lambda>e. instant (entry_key e)) ?s)" by (rule sorted_sort_key)
  then have "sorted (butlast (tl (map (\<lambda>e. instant (entry_key e)) ?s)))"
    by (intro sorted_butlast sorted_tl)
  then have "sorted (map (\<lambda>e. instant (entry_key e)) (butlast (tl ?s)))"
    by (simp only: map_butlast map_tl)
  moreover have len: "length (butlast (tl ?s)) = n - 1"
    using buckets by (simp add: length_timeline_entries)
  moreover have "butlast (tl ?s) = [] \<longleftrightarrow> n \<le> 1"
    using len by (metis length_0_conv diff_is_0_eq)
  moreover have "butlast (tl ?s) ! i = ?s ! (i + 1)" if "i < n - 1" for i
    using that len by (simp add: nth_butlast nth_tl)
  ultimately show ?thesis using eq by simp
qed

theorem timeline_trimmed_witness:
  "buildResponse example_instant example_current example_response = Inr example_summary \<and>
   card ((bucket_name ` set (filteredTimeline (response_aggregations example_response)) \<union>
          bucket_name ` set (agg_timeline (response_aggregations example_response)))
         - {''__proto__''}) = 2 + 1 \<and>
   timeline example_summary =
     butlast (tl (sort_key (\<lambda>e. example_instant (entry_key e))
                    (timeline_entries (response_aggregations example_response)))) \<and>
   length (timeline example_summary) = 1"
proof -
  have "length (timeline_entries (response_aggregations example_response)) = 2 + 1"
    by (simp add: example_response_def example_aggregations_def bucket_name_def
      timeline_entries_def parseAggregation_def set_prop_def calculatePercentages_def
      assign_count_def percentage_keys_def Object_keys_def is_array_index_def
      filter_indexed_first Let_def)
  then have n:
    "card ((bucket_name ` set (filteredTimeline (response_aggregations example_response)) \<union>
            bucket_name ` set (agg_timeline (response_aggregations example_response)))
           - {''__proto__''}) = 2 + 1"
    by (simp only: length_timeline_entries)
  from timeline_trimmed [OF example_buildResponse n]
  have trimmed: "timeline example_summary =
      butlast (tl (sort_key (\<lambda>e. example_instant (entry_key e))
                     (timeline_entries (response_aggregations example_response))))"
    by blast
  have "length (timeline example_summary) = 1" by (simp add: example_summary_def)
  with example_buildResponse n trimmed show ?thesis by blast
qed

text \<open>
  C6 as stated fails at \<open>n = 2\<close>: with the three time buckets 2013, 2014 and 2015 the
  timeline is not empty, it holds the one entry in the middle.
\<close>

theorem three_buckets_counterexample:
  "map bucket_name (agg_timeline example_aggregations) =
     [''2013-01-01'', ''2014-01-01'', ''2015-01-01''] \<and>
   map bucket_name (filteredTimeline example_aggregations) = [''2014-01-01''] \<and>
   buildResponse example_instant example_current example_response = Inr example_summary \<and>
   timeline example_summary =
     [\<lparr>entry_key = ''2014-01-01'', count = Number 2, total' = Number 5, pct = Finite 40\<rparr>]"
  by (simp add: example_buildResponse example_summary_def example_aggregations_def
      bucket_name_def)

section \<open>Hits\<close>

lemma Object_assign_other:
  "k \<notin> fst ` set src \<Longrightarrow> map_of (Object_assign target src) k = map_of target k"
  unfolding Object_assign_def
  by (induction src arbitrary: target) (auto simp: set_prop_def update_conv')

text \<open>
  C8 (amended). For a raw hit whose stored document has no field named \<open>highlight\<close>
  and whose highlight, when it has one, holds at least one fragment, the \<open>highlight\<close> of
  the built hit is the first fragment when the raw hit has a highlight and the empty
  string when it has none; it is neither \<^verbatim>\<open>undefined\<close> nor \<^verbatim>\<open>null\<close>.
\<close>

theorem hit_highlight:
  assumes own: "''highlight'' \<notin> fst ` set (source hit)"
    and fragment: "highlight hit \<noteq> Some []"
  shows "get_prop (buildHit hit) ''highlight'' =
           (case highlight hit of None \<Rightarrow> JStr [] | Some fragments \<Rightarrow> JStr (hd fragments)) \<and>
         get_prop (buildHit hit) ''highlight'' \<noteq> JUndefined \<and>
         get_prop (buildHit hit) ''highlight'' \<noteq> JNull"
proof -
  have "get_prop (buildHit hit) ''highlight'' =
      (case highlight hit of
         None \<Rightarrow> JStr []
       | Some fragments \<Rightarrow> (case fragments of [] \<Rightarrow> JUndefined | f # _ \<Rightarrow> JStr f))"
    by (simp add: get_prop_def buildHit_def Object_assign_other [OF own])
  with fragment show ?thesis
    by (cases "highlight hit") (auto split: list.splits)
qed

theorem hit_highlight_witness:
  "get_prop (buildHit \<lparr>hit_id = JStr ''s1'', hit_score = JNum 3,
       highlight = Some [''om <mark>skatt</mark>'', ''mer <mark>skatt</mark>''],
       source = [(''name'', JStr ''Erna Solberg''), (''text'', JStr ''om skatt og mer skatt'')]\<rparr>)
     ''highlight'' = JStr ''om <mark>skatt</mark>'' \<and>
   get_prop (buildHit \<lparr>hit_id = JStr ''s2'', hit_score = JNum 1, highlight = None,
       source = [(''name'', JStr ''Erna Solberg''), (''text'', JStr ''om avgift'')]\<rparr>)
     ''highlight'' = JStr []"
  using hit_highlight [of "\<lparr>hit_id = JStr ''s1'', hit_score = JNum 3,
       highlight = Some [''om <mark>skatt</mark>'', ''mer <mark>skatt</mark>''],
       source = [(''name'', JStr ''Erna Solberg''), (''text'', JStr ''om skatt og mer skatt'')]\<rparr>"]
    hit_highlight [of "\<lparr>hit_id = JStr ''s2'', hit_score = JNum 1, highlight = None,
       source = [(''name'', JStr ''Erna Solberg''), (''text'', JStr ''om avgift'')]\<rparr>"]
  by simp

text \<open>
  C8 as stated fails for a stored document with a field of its own named \<open>highlight\<close>:
  \<^verbatim>\<open>Object.assign\<close> writes the document's fields last, so the stored value replaces the
  fragment.
\<close>

theorem stored_highlight_counterexample:
  "highlight \<lparr>hit_id = JStr ''s1'', hit_score = JNum 3,
       highlight = Some [''om <mark>skatt</mark>''],
       source = [(''text'', JStr ''om skatt''), (''highlight'', JStr ''stored'')]\<rparr>
     = Some [''om <mark>skatt</mark>''] \<and>
   get_prop (buildHit \<lparr>hit_id = JStr ''s1'', hit_score = JNum 3,
       highlight = Some [''om <mark>skatt</mark>''],
       source = [(''text'', JStr ''om skatt''), (''highlight'', JStr ''stored'')]\<rparr>)
     ''highlight'' = JStr ''stored''"
  by (simp add: buildHit_def Object_assign_def set_prop_def get_prop_def)

section \<open>The cache key\<close>

text \<open>
  C1 (amended). For option objects whose values are scalars, each field listed once,
  \<^verbatim>\<open>cached\<close> computes the same key for two of them exactly when they list the same
  defined fields with the same values in the same order. So options that differ in the
  \<open>query\<close> field get different keys, and so do options that hold the same fields in a
  different order.
\<close>

theorem key_follows_serialisation:
  assumes "list_all (\<lambda>p. scalar (snd p)) o1" and "list_all (\<lambda>p. scalar (snd p)) o2"
    and "distinct (map fst o1)" and "distinct (map fst o2)"
  shows "(cacheKey name (JObj o1) = cacheKey name (JObj o2) \<longleftrightarrow>
            defined_members o1 = defined_members o2) \<and>
         (get_prop o1 ''query'' \<noteq> get_prop o2 ''query'' \<longrightarrow>
            cacheKey name (JObj o1) \<noteq> cacheKey name (JObj o2))"
proof -
  have d1: "\<forall>p \<in> set (defined_members o1). scalar (snd p) \<and> snd p \<noteq> JUndefined"
    using assms(1) by (auto simp: defined_members_def list_all_iff)
  have d2: "\<forall>p \<in> set (defined_members o2). scalar (snd p) \<and> snd p \<noteq> JUndefined"
    using assms(2) by (auto simp: defined_members_def list_all_iff)
  have iff: "cacheKey name (JObj o1) = cacheKey name (JObj o2) \<longleftrightarrow>
      defined_members o1 = defined_members o2"
  proof
    assume "cacheKey name (JObj o1) = cacheKey name (JObj o2)"
    then have "join '','' (map member_string (defined_members o1)) @ CHR ''}'' # [] =
        join '','' (map member_string (defined_members o2)) @ CHR ''}'' # []"
      by (simp add: cacheKey_def concat_stringified_def stringify_object
          del: JSON_stringify.simps)
    from members_injective [OF d1 d2 this]
    show "defined_members o1 = defined_members o2" .
  next
    assume "defined_members o1 = defined_members o2"
    then show "cacheKey name (JObj o1) = cacheKey name (JObj o2)"
      by (simp add: cacheKey_def concat_stringified_def stringify_object
          del: JSON_stringify.simps)
  qed
  moreover have "get_prop o1 ''query'' = get_prop o2 ''query''"
    if "defined_members o1 = defined_members o2"
    using get_prop_defined [OF assms(3), of "''query''"]
      get_prop_defined [OF assms(4), of "''query''"] that by simp
  ultimately show ?thesis by blast
qed

theorem key_follows_serialisation_witness:
  "list_all (\<lambda>p. scalar (snd p)) [(''query'', JStr ''a'')] \<and>
   list_all (\<lambda>p. scalar (snd p)) [(''query'', JStr ''b'')] \<and>
   get_prop [(''query'', JStr ''a'')] ''query'' \<noteq> get_prop [(''query'', JStr ''b'')] ''query'' \<and>
   cacheKey ''summary'' (JObj [(''query'', JStr ''a'')]) \<noteq>
     cacheKey ''summary'' (JObj [(''query'', JStr ''b'')])"
  using key_follows_serialisation [of "[(''query'', JStr ''a'')]" "[(''query'', JStr ''b'')]"
      "''summary''"]
  by (simp add: get_prop_def defined_members_def)

text \<open>
  C1 as stated fails for two objects that hold the same fields in a different order: the
  keys are different strings.
\<close>

theorem field_order_counterexample:
  \<open>set [(''query'', JStr ''a''), (''interval'', JStr ''month'')] =
     set [(''interval'', JStr ''month''), (''query'', JStr ''a'')] \<and>
   cacheKey ''summary'' (JObj [(''query'', JStr ''a''), (''interval'', JStr ''month'')]) =
     ''summary:{"query":"a","interval":"month"}'' \<and>
   cacheKey ''summary'' (JObj [(''interval'', JStr ''month''), (''query'', JStr ''a'')]) =
     ''summary:{"interval":"month","query":"a"}'' \<and>
   cacheKey ''summary'' (JObj [(''query'', JStr ''a''), (''interval'', JStr ''month'')]) \<noteq>
     cacheKey ''summary'' (JObj [(''interval'', JStr ''month''), (''query'', JStr ''a'')])\<close>
  by (auto simp: cacheKey_def concat_stringified_def quote_def quote_char_def)

section \<open>The cached operations\<close>

lemma cached_never_throws:
  assumes "\<And>sent e. fst (fetchFunc sent) \<noteq> Throws e"
  shows "fst (cached is_truthy name data fetchFunc s) \<noteq> Throws e"
proof -
  obtain r sent where f: "fetchFunc (requests s) = (r, sent)"
    by (cases "fetchFunc (requests s)")
  with assms [of "requests s"] have "\<And>e. r \<noteq> Throws e" by simp
  with f show ?thesis
    by (cases r) (auto simp: cached_def fetch_and_store_def cacheResponse_def Let_def
        split: prod.splits option.splits)
qed

lemma fetch_summary_never_throws: "fst (fetch_summary es instant isCurrent opts sent) \<noteq> Throws e"
  by (auto simp: fetch_summary_def es_search_def split: sum.splits)

lemma fetch_hits_never_throws: "fst (fetch_hits es opts sent) \<noteq> Throws e"
  by (auto simp: fetch_hits_def es_search_def split: sum.splits)

lemma summary_never_throws:
  "intervalFrom opts = Inr v \<Longrightarrow> fst (summary es instant isCurrent opts s) \<noteq> Throws e"
  by (simp add: summary_accepted cached_never_throws fetch_summary_never_throws)

lemma hits_never_throws:
  "intervalFrom opts = Inr v \<Longrightarrow> fst (hits_op es opts s) \<noteq> Throws e"
  by (simp add: hits_accepted cached_never_throws fetch_hits_never_throws)

lemma fetch_and_store_requests:
  "requests (snd (fetch_and_store k fetchFunc c s)) = snd (fetchFunc (requests s))"
  by (cases "fetchFunc (requests s)"; cases "fst (fetchFunc (requests s))")
    (auto simp: fetch_and_store_def cacheResponse_def)

lemma fetch_summary_requests:
  "snd (fetch_summary es instant isCurrent opts sent) = sent @ [AggregationsQuery opts]"
  by (simp add: fetch_summary_def es_search_def)

lemma summary_round_trips:
  assumes iv: "intervalFrom opts = Inr v"
  shows "requests (snd (snd (summary es instant isCurrent opts s))) =
     (if map_of (cache s) (cacheKey ''summary'' (JObj (set_prop opts ''interval'' v))) = None
      then requests s @ [AggregationsQuery (set_prop opts ''interval'' v)]
      else requests s)"
proof (cases "map_of (cache s) (cacheKey ''summary'' (JObj (set_prop opts ''interval'' v)))")
  case None
  then have "cached (\<lambda>v. True) ''summary'' (JObj (set_prop opts ''interval'' v))
      (fetch_summary es instant isCurrent (set_prop opts ''interval'' v)) s =
     fetch_and_store (cacheKey ''summary'' (JObj (set_prop opts ''interval'' v)))
       (fetch_summary es instant isCurrent (set_prop opts ''interval'' v))
       (snd (lru_get (cacheKey ''summary'' (JObj (set_prop opts ''interval'' v))) (cache s))) s"
    by (intro cached_miss) simp
  with None show ?thesis
    by (simp add: summary_accepted [OF iv] fetch_and_store_requests fetch_summary_requests)
next
  case (Some w)
  then have "cached (\<lambda>v. True) ''summary'' (JObj (set_prop opts ''interval'' v))
      (fetch_summary es instant isCurrent (set_prop opts ''interval'' v)) s =
     (Resolved w, s\<lparr>cache := snd (lru_get (cacheKey ''summary'' (JObj (set_prop opts ''interval'' v))) (cache s))\<rparr>)"
    by (intro cached_hit) simp_all
  with Some show ?thesis by (simp add: summary_accepted [OF iv])
qed

lemma fetch_summary_resolved:
  "es (AggregationsQuery opts) = Inr response \<Longrightarrow>
     buildResponse instant isCurrent response = Inr res \<Longrightarrow>
     fetch_summary es instant isCurrent opts sent =
       (Resolved (SummaryResult res), sent @ [AggregationsQuery opts])"
  by (simp add: fetch_summary_def es_search_def)

text \<open>
  C2. Let \<^verbatim>\<open>summary(opts)\<close> accept the interval, and let \<open>k\<close> be the cache key of the
  options as the call leaves them. On a hit, the cache holding \<open>v\<close> under \<open>k\<close>, the call
  resolves to \<open>v\<close> and sends nothing, whatever the index would answer. On a miss it sends
  one request; when the index answers and the answer is shaped to \<open>res\<close>, the call
  resolves to \<open>res\<close> and leaves it in the cache under \<open>k\<close>, and a second call in that
  state (with the same object, which now carries the interval, or with a fresh object
  equal to the original) resolves to \<open>res\<close> again and leaves the state, request log
  included, as it is, against any index. However the first call resolved, a second call
  resolves to the same value with the log of requests unchanged.
\<close>

theorem summary_twice_hits_cache:
  assumes iv: "intervalFrom opts = Inr iv"
    and o1: "opts1 = set_prop opts ''interval'' iv"
    and k: "k = cacheKey ''summary'' (JObj opts1)"
  shows
    "(map_of (cache s) k = Some v \<longrightarrow>
        summary es instant isCurrent opts s =
          (Resolved v, opts1, s\<lparr>cache := snd (lru_get k (cache s))\<rparr>)) \<and>
     (map_of (cache s) k = None \<longrightarrow>
        requests (snd (snd (summary es instant isCurrent opts s))) =
          requests s @ [AggregationsQuery opts1]) \<and>
     (map_of (cache s) k = None \<and> es (AggregationsQuery opts1) = Inr response \<and>
      buildResponse instant isCurrent response = Inr res \<longrightarrow>
        summary es instant isCurrent opts s =
          (Resolved (SummaryResult res), opts1,
           s\<lparr>cache := lru_set k (SummaryResult res) (cache s),
             requests := requests s @ [AggregationsQuery opts1]\<rparr>) \<and>
        summary es' instant' isCurrent' opts
           (s\<lparr>cache := lru_set k (SummaryResult res) (cache s),
              requests := requests s @ [AggregationsQuery opts1]\<rparr>) =
          (Resolved (SummaryResult res), opts1,
           s\<lparr>cache := lru_set k (SummaryResult res) (cache s),
             requests := requests s @ [AggregationsQuery opts1]\<rparr>) \<and>
        summary es' instant' isCurrent' opts1
           (s\<lparr>cache := lru_set k (SummaryResult res) (cache s),
              requests := requests s @ [AggregationsQuery opts1]\<rparr>) =
          (Resolved (SummaryResult res), opts1,
           s\<lparr>cache := lru_set k (SummaryResult res) (cache s),
             requests := requests s @ [AggregationsQuery opts1]\<rparr>)) \<and>
     (summary es instant isCurrent opts s = (Resolved w, opts1, s1) \<longrightarrow>
        (\<exists>s2. summary es' instant' isCurrent' opts s1 = (Resolved w, opts1, s2) \<and>
              requests s2 = requests s1) \<and>
        (\<exists>s2. summary es' instant' isCurrent' opts1 s1 = (Resolved w, opts1, s2) \<and>
              requests s2 = requests s1))"
proof -
  let ?f = "fetch_summary es instant isCurrent opts1"
  let ?f' = "fetch_summary es' instant' isCurrent' opts1"
  have iv1: "intervalFrom opts1 = Inr iv"
    unfolding o1 using iv by (rule intervalFrom_normalised)
  have same: "set_prop opts1 ''interval'' iv = opts1"
    unfolding o1 by (rule set_prop_twice)
  have on_hit: "summary es0 instant0 isCurrent0 opts0 s0 =
      (Resolved u, opts1, s0\<lparr>cache := snd (lru_get k (cache s0))\<rparr>)"
    if stored: "map_of (cache s0) k = Some u" and opts0: "opts0 = opts \<or> opts0 = opts1"
    for es0 instant0 isCurrent0 opts0 u and s0 :: "shaped api_state"
  proof -
    have "cached (\<lambda>v. True) ''summary'' (JObj opts1)
        (fetch_summary es0 instant0 isCurrent0 opts1) s0 =
        (Resolved u, s0\<lparr>cache := snd (lru_get k (cache s0))\<rparr>)"
      unfolding k using stored [unfolded k] by (rule cached_hit) simp
    then show ?thesis
      using opts0 by (auto simp: summary_accepted [OF iv] summary_accepted [OF iv1] same
          o1 [symmetric])
  qed
  have hit: "summary es instant isCurrent opts s =
      (Resolved v, opts1, s\<lparr>cache := snd (lru_get k (cache s))\<rparr>)"
    if "map_of (cache s) k = Some v"
    using that by (intro on_hit) simp_all
  have sent: "requests (snd (snd (summary es instant isCurrent opts s))) =
      requests s @ [AggregationsQuery opts1]"
    if "map_of (cache s) k = None"
    using summary_round_trips [OF iv, of es instant isCurrent s] that
    by (simp add: o1 k)
  have miss: "summary es instant isCurrent opts s =
          (Resolved (SummaryResult res), opts1,
           s\<lparr>cache := lru_set k (SummaryResult res) (cache s),
             requests := requests s @ [AggregationsQuery opts1]\<rparr>) \<and>
        summary es' instant' isCurrent' opts
           (s\<lparr>cache := lru_set k (SummaryResult res) (cache s),
              requests := requests s @ [AggregationsQuery opts1]\<rparr>) =
          (Resolved (SummaryResult res), opts1,
           s\<lparr>cache := lru_set k (SummaryResult res) (cache s),
             requests := requests s @ [AggregationsQuery opts1]\<rparr>) \<and>
        summary es' instant' isCurrent' opts1
           (s\<lparr>cache := lru_set k (SummaryResult res) (cache s),
              requests := requests s @ [AggregationsQuery opts1]\<rparr>) =
          (Resolved (SummaryResult res), opts1,
           s\<lparr>cache := lru_set k (SummaryResult res) (cache s),
             requests := requests s @ [AggregationsQuery opts1]\<rparr>)"
    if absent: "map_of (cache s) k = None"
      and answer: "es (AggregationsQuery opts1) = Inr response"
      and shaped: "buildResponse instant isCurrent response = Inr res"
  proof -
    let ?s1 = "s\<lparr>cache := lru_set k (SummaryResult res) (cache s),
             requests := requests s @ [AggregationsQuery opts1]\<rparr>"
    have "cached (\<lambda>v. True) ''summary'' (JObj opts1) ?f s =
        fetch_and_store k ?f (snd (lru_get k (cache s))) s"
      unfolding k using absent [unfolded k] by (intro cached_miss) simp
    also have "\<dots> = fetch_and_store k ?f (cache s) s"
      using absent by (simp add: lru_get_absent)
    also have "\<dots> = (Resolved (SummaryResult res), ?s1)"
      using fetch_summary_resolved [of es opts1 response instant isCurrent res "requests s"]
        answer shaped
      by (intro fetch_and_store_resolved) simp
    finally have first: "summary es instant isCurrent opts s =
        (Resolved (SummaryResult res), opts1, ?s1)"
      by (simp add: summary_accepted [OF iv] o1 [symmetric])
    have "map_of (cache ?s1) k = Some (SummaryResult res)"
      by (simp add: lru_set_stored)
    then have "summary es' instant' isCurrent' opts0 ?s1 =
        (Resolved (SummaryResult res), opts1, ?s1\<lparr>cache := snd (lru_get k (cache ?s1))\<rparr>)"
      if "opts0 = opts \<or> opts0 = opts1" for opts0
      using that by (intro on_hit) simp_all
    then have "summary es' instant' isCurrent' opts ?s1 =
        (Resolved (SummaryResult res), opts1, ?s1)"
      and "summary es' instant' isCurrent' opts1 ?s1 =
        (Resolved (SummaryResult res), opts1, ?s1)"
      by (simp_all add: lru_get_after_set)
    with first show ?thesis by simp
  qed
  have again: "(\<exists>s2. summary es' instant' isCurrent' opts s1 = (Resolved w, opts1, s2) \<and>
              requests s2 = requests s1) \<and>
        (\<exists>s2. summary es' instant' isCurrent' opts1 s1 = (Resolved w, opts1, s2) \<and>
              requests s2 = requests s1)"
    if first: "summary es instant isCurrent opts s = (Resolved w, opts1, s1)"
  proof -
    from first have c: "cached (\<lambda>v. True) ''summary'' (JObj opts1) ?f s = (Resolved w, s1)"
      by (simp add: summary_accepted [OF iv] o1 prod_eq_iff)
    from cached_resolved_stored(1) [OF c]
    have stored: "map_of (cache s1) k = Some w" unfolding k .
    have "summary es' instant' isCurrent' opts s1 =
        (Resolved w, opts1, s1\<lparr>cache := snd (lru_get k (cache s1))\<rparr>)"
      using stored by (intro on_hit) simp_all
    moreover have "summary es' instant' isCurrent' opts1 s1 =
        (Resolved w, opts1, s1\<lparr>cache := snd (lru_get k (cache s1))\<rparr>)"
      using stored by (intro on_hit) simp_all
    ultimately show ?thesis by simp
  qed
  have on_stored: "map_of (cache s) k = Some v \<longrightarrow>
        summary es instant isCurrent opts s =
          (Resolved v, opts1, s\<lparr>cache := snd (lru_get k (cache s))\<rparr>)"
    by (rule impI) (rule hit)
  have on_absent: "map_of (cache s) k = None \<longrightarrow>
        requests (snd (snd (summary es instant isCurrent opts s))) =
          requests s @ [AggregationsQuery opts1]"
    by (rule impI) (rule sent)
  have on_fetched: "map_of (cache s) k = None \<and> es (AggregationsQuery opts1) = Inr response \<and>
      buildResponse instant isCurrent response = Inr res \<longrightarrow>
        summary es instant isCurrent opts s =
          (Resolved (SummaryResult res), opts1,
           s\<lparr>cache := lru_set k (SummaryResult res) (cache s),
             requests := requests s @ [AggregationsQuery opts1]\<rparr>) \<and>
        summary es' instant' isCurrent' opts
           (s\<lparr>cache := lru_set k (SummaryResult res) (cache s),
              requests := requests s @ [AggregationsQuery opts1]\<rparr>) =
          (Resolved (SummaryResult res), opts1,
           s\<lparr>cache := lru_set k (SummaryResult res) (cache s),
             requests := requests s @ [AggregationsQuery opts1]\<rparr>) \<and>
        summary es' instant' isCurrent' opts1
           (s\<lparr>cache := lru_set k (SummaryResult res) (cache s),
              requests := requests s @ [AggregationsQuery opts1]\<rparr>) =
          (Resolved (SummaryResult res), opts1,
           s\<lparr>cache := lru_set k (SummaryResult res) (cache s),
             requests := requests s @ [AggregationsQuery opts1]\<rparr>)"
    by (rule impI, elim conjE) (rule miss)
  have on_second: "summary es instant isCurrent opts s = (Resolved w, opts1, s1) \<longrightarrow>
        (\<exists>s2. summary es' instant' isCurrent' opts s1 = (Resolved w, opts1, s2) \<and>
              requests s2 = requests s1) \<and>
        (\<exists>s2. summary es' instant' isCurrent' opts1 s1 = (Resolved w, opts1, s2) \<and>
              requests s2 = requests s1)"
    by (rule impI) (rule again)
  show ?thesis
    by (intro conjI on_stored on_absent on_fetched on_second)
qed

theorem summary_twice_hits_cache_witness:
  "intervalFrom [(''query'', JStr ''skatt'')] = Inr (JStr ''month'') \<and>
   map_of (cache empty_state)
     (cacheKey ''summary'' (JObj [(''query'', JStr ''skatt''), (''interval'', JStr ''month'')]))
     = None \<and>
   example_index (AggregationsQuery [(''query'', JStr ''skatt''), (''interval'', JStr ''month'')])
     = Inr example_response \<and>
   buildResponse example_instant example_current example_response = Inr example_summary \<and>
   summary example_index example_instant example_current [(''query'', JStr ''skatt'')] empty_state =
     (Resolved (SummaryResult example_summary),
      [(''query'', JStr ''skatt''), (''interval'', JStr ''month'')],
      \<lparr>cache = [(cacheKey ''summary'' (JObj [(''query'', JStr ''skatt''), (''interval'', JStr ''month'')]),
                  SummaryResult example_summary)],
       requests = [AggregationsQuery [(''query'', JStr ''skatt''), (''interval'', JStr ''month'')]]\<rparr>) \<and>
   map_of
     (cache \<lparr>cache = [(cacheKey ''summary'' (JObj [(''query'', JStr ''skatt''), (''interval'', JStr ''month'')]),
                       SummaryResult example_summary)],
             requests = [AggregationsQuery [(''query'', JStr ''skatt''), (''interval'', JStr ''month'')]]\<rparr>)
     (cacheKey ''summary'' (JObj [(''query'', JStr ''skatt''), (''interval'', JStr ''month'')]))
     = Some (SummaryResult example_summary) \<and>
   summary failing_index example_instant example_current [(''query'', JStr ''skatt'')]
     \<lparr>cache = [(cacheKey ''summary'' (JObj [(''query'', JStr ''skatt''), (''interval'', JStr ''month'')]),
                 SummaryResult example_summary)],
      requests = [AggregationsQuery [(''query'', JStr ''skatt''), (''interval'', JStr ''month'')]]\<rparr> =
     (Resolved (SummaryResult example_summary),
      [(''query'', JStr ''skatt''), (''interval'', JStr ''month'')],
      \<lparr>cache = [(cacheKey ''summary'' (JObj [(''query'', JStr ''skatt''), (''interval'', JStr ''month'')]),
                  SummaryResult example_summary)],
       requests = [AggregationsQuery [(''query'', JStr ''skatt''), (''interval'', JStr ''month'')]]\<rparr>)"
proof -
  let ?opts1 = "[(''query'', JStr ''skatt''), (''interval'', JStr ''month'')]"
  let ?k = "cacheKey ''summary'' (JObj ?opts1)"
  have iv: "intervalFrom [(''query'', JStr ''skatt'')] = Inr (JStr ''month'')"
    by (simp add: intervalFrom_def get_prop_def js_or_def indexOf_def ALLOWED_INTERVALS_def)
  have o1: "?opts1 = set_prop [(''query'', JStr ''skatt'')] ''interval'' (JStr ''month'')"
    by (simp add: set_prop_def)
  have absent: "map_of (cache empty_state) ?k = None"
    by (simp add: empty_state_def)
  have answer: "example_index (AggregationsQuery ?opts1) = Inr example_response"
    by (simp add: example_index_def)
  have s1: "empty_state\<lparr>cache := lru_set ?k (SummaryResult example_summary) (cache empty_state),
        requests := requests empty_state @ [AggregationsQuery ?opts1]\<rparr> =
      \<lparr>cache = [(?k, SummaryResult example_summary)],
       requests = [AggregationsQuery ?opts1]\<rparr>"
    by (simp add: empty_state_def lru_set_def LRU_MAX_def)
  from summary_twice_hits_cache [where s = empty_state and es = example_index
      and response = example_response and res = example_summary
      and instant = example_instant and isCurrent = example_current
      and es' = failing_index and instant' = example_instant and isCurrent' = example_current,
      OF iv o1 refl]
    absent answer example_buildResponse
  have "summary example_index example_instant example_current [(''query'', JStr ''skatt'')]
        empty_state =
      (Resolved (SummaryResult example_summary), ?opts1,
       empty_state\<lparr>cache := lru_set ?k (SummaryResult example_summary) (cache empty_state),
         requests := requests empty_state @ [AggregationsQuery ?opts1]\<rparr>) \<and>
     summary failing_index example_instant example_current [(''query'', JStr ''skatt'')]
       (empty_state\<lparr>cache := lru_set ?k (SummaryResult example_summary) (cache empty_state),
         requests := requests empty_state @ [AggregationsQuery ?opts1]\<rparr>) =
      (Resolved (SummaryResult example_summary), ?opts1,
       empty_state\<lparr>cache := lru_set ?k (SummaryResult example_summary) (cache empty_state),
         requests := requests empty_state @ [AggregationsQuery ?opts1]\<rparr>)"
    by blast
  then have "summary example_index example_instant example_current [(''query'', JStr ''skatt'')]
        empty_state =
      (Resolved (SummaryResult example_summary), ?opts1,
       \<lparr>cache = [(?k, SummaryResult example_summary)], requests = [AggregationsQuery ?opts1]\<rparr>) \<and>
     summary failing_index example_instant example_current [(''query'', JStr ''skatt'')]
       \<lparr>cache = [(?k, SummaryResult example_summary)], requests = [AggregationsQuery ?opts1]\<rparr> =
      (Resolved (SummaryResult example_summary), ?opts1,
       \<lparr>cache = [(?k, SummaryResult example_summary)], requests = [AggregationsQuery ?opts1]\<rparr>)"
    by (simp only: s1)
  moreover have "map_of
     (cache \<lparr>cache = [(?k, SummaryResult example_summary)],
             requests = [AggregationsQuery ?opts1]\<rparr>) ?k
     = Some (SummaryResult example_summary)"
    by simp
  ultimately show ?thesis using iv absent answer example_buildResponse by blast
qed

text \<open>
  C3. When the fetch function fails (its promise is rejected, or it throws), \<^verbatim>\<open>cached\<close>
  stores nothing: every key of the cache holds what it held. When the lookup was a miss
  the failure is what \<^verbatim>\<open>cached\<close> returns, and when the key was not in the cache at
  all the cache is left as it was, entry for entry.
\<close>

theorem failed_fetch_not_cached:
  assumes fetch: "fetchFunc (requests s) = (r, sent)"
    and failed: "r = Rejected e \<or> r = Throws e"
  shows "map_of (cache (snd (cached is_truthy name data fetchFunc s))) = map_of (cache s) \<and>
         ((\<forall>w. map_of (cache s) (cacheKey name data) = Some w \<longrightarrow> \<not> is_truthy w) \<longrightarrow>
            fst (cached is_truthy name data fetchFunc s) = r \<and>
            requests (snd (cached is_truthy name data fetchFunc s)) = sent) \<and>
         (map_of (cache s) (cacheKey name data) = None \<longrightarrow>
            cached is_truthy name data fetchFunc s = (r, s\<lparr>requests := sent\<rparr>))"
proof -
  let ?k = "cacheKey name data"
  have miss: "cached is_truthy name data fetchFunc s =
      (r, s\<lparr>cache := snd (lru_get ?k (cache s)), requests := sent\<rparr>)"
    if "\<forall>w. map_of (cache s) ?k = Some w \<longrightarrow> \<not> is_truthy w"
    using that cached_miss [of s name data is_truthy fetchFunc]
      fetch_and_store_failed [of fetchFunc s r sent e] fetch failed by simp
  have unchanged: "map_of (cache (snd (cached is_truthy name data fetchFunc s))) = map_of (cache s)"
  proof (cases "\<exists>w. map_of (cache s) ?k = Some w \<and> is_truthy w")
    case True
    then obtain w where "map_of (cache s) ?k = Some w" "is_truthy w" by blast
    with cached_hit [of s name data w is_truthy fetchFunc] show ?thesis
      by (simp add: map_of_lru_get)
  next
    case False
    then show ?thesis using miss by (simp add: map_of_lru_get)
  qed
  have absent: "cached is_truthy name data fetchFunc s = (r, s\<lparr>requests := sent\<rparr>)"
    if "map_of (cache s) ?k = None"
    using that miss by (simp add: lru_get_absent)
  from unchanged miss absent show ?thesis by simp
qed

theorem failed_fetch_not_cached_witness:
  "cached (\<lambda>v. True) ''summary'' (JObj [(''query'', JStr ''skatt'')])
      (fetch_summary failing_index example_instant example_current [(''query'', JStr ''skatt'')])
      empty_state
     = (Rejected (UpstreamQueryError ''timeout''),
        \<lparr>cache = [], requests = [AggregationsQuery [(''query'', JStr ''skatt'')]]\<rparr>)"
proof -
  let ?f = "fetch_summary failing_index example_instant example_current [(''query'', JStr ''skatt'')]"
  have k: "map_of (cache empty_state) (cacheKey ''summary'' (JObj [(''query'', JStr ''skatt'')])) = None"
    by (simp add: empty_state_def)
  have f: "?f (requests empty_state) =
      (Rejected (UpstreamQueryError ''timeout''), [AggregationsQuery [(''query'', JStr ''skatt'')]])"
    by (simp add: fetch_summary_def es_search_def failing_index_def empty_state_def)
  from failed_fetch_not_cached [of ?f empty_state "Rejected (UpstreamQueryError ''timeout'')"
      "[AggregationsQuery [(''query'', JStr ''skatt'')]]" "UpstreamQueryError ''timeout''"
      "\<lambda>v. True" "''summary''" "JObj [(''query'', JStr ''skatt'')]"] f k
  show ?thesis by (simp add: empty_state_def)
qed

text \<open>
  C4 (amended). An interval that is absent, or present with a falsy value such as the
  empty string, is normalised to \<open>month\<close>. For a truthy interval outside the allowed ones
  \<^verbatim>\<open>summary\<close> and \<^verbatim>\<open>hits\<close> throw the invalid-interval error before anything else
  happens: the options and the state (cache, requests sent) are untouched. An allowed
  interval, \<open>year\<close> among them, is accepted as it is and neither operation throws.
\<close>

theorem interval_validation:
  "(''interval'' \<notin> fst ` set opts \<longrightarrow> intervalFrom opts = Inr (JStr ''month'')) \<and>
   (\<not> truthy (get_prop opts ''interval'') \<longrightarrow> intervalFrom opts = Inr (JStr ''month'')) \<and>
   (truthy (get_prop opts ''interval'') \<and> get_prop opts ''interval'' \<notin> set ALLOWED_INTERVALS \<longrightarrow>
      summary es instant isCurrent opts s =
        (Throws (InvalidIntervalError (get_prop opts ''interval'')), opts, s) \<and>
      hits_op es opts s =
        (Throws (InvalidIntervalError (get_prop opts ''interval'')), opts, s)) \<and>
   (get_prop opts ''interval'' \<in> set ALLOWED_INTERVALS \<longrightarrow>
      intervalFrom opts = Inr (get_prop opts ''interval'') \<and>
      (\<forall>e. fst (summary es instant isCurrent opts s) \<noteq> Throws e) \<and>
      (\<forall>e. fst (hits_op es opts s) \<noteq> Throws e))"
proof (intro conjI impI)
  assume "''interval'' \<notin> fst ` set opts"
  then have "map_of opts ''interval'' = None" by (simp add: map_of_eq_None_iff)
  then show "intervalFrom opts = Inr (JStr ''month'')"
    by (simp add: intervalFrom_Inr js_or_def get_prop_def ALLOWED_INTERVALS_def)
next
  assume "\<not> truthy (get_prop opts ''interval'')"
  then show "intervalFrom opts = Inr (JStr ''month'')"
    by (simp add: intervalFrom_Inr js_or_def ALLOWED_INTERVALS_def)
next
  assume a: "truthy (get_prop opts ''interval'') \<and> get_prop opts ''interval'' \<notin> set ALLOWED_INTERVALS"
  then have "intervalFrom opts = Inl (InvalidIntervalError (get_prop opts ''interval''))"
    by (simp add: intervalFrom_Inl js_or_def)
  then show "summary es instant isCurrent opts s =
        (Throws (InvalidIntervalError (get_prop opts ''interval'')), opts, s)"
    and "hits_op es opts s =
        (Throws (InvalidIntervalError (get_prop opts ''interval'')), opts, s)"
    by (simp_all add: summary_def hits_op_def)
next
  assume a: "get_prop opts ''interval'' \<in> set ALLOWED_INTERVALS"
  then show ok: "intervalFrom opts = Inr (get_prop opts ''interval'')"
    by (simp add: intervalFrom_Inr js_or_def allowed_truthy)
  then show "\<forall>e. fst (summary es instant isCurrent opts s) \<noteq> Throws e"
    and "\<forall>e. fst (hits_op es opts s) \<noteq> Throws e"
    using summary_never_throws hits_never_throws by blast+
qed

theorem interval_validation_witness:
  "truthy (get_prop [(''query'', JStr ''skatt''), (''interval'', JStr ''week'')] ''interval'') \<and>
   get_prop [(''query'', JStr ''skatt''), (''interval'', JStr ''week'')] ''interval''
     \<notin> set ALLOWED_INTERVALS \<and>
   summary example_index example_instant example_current
       [(''query'', JStr ''skatt''), (''interval'', JStr ''week'')] empty_state =
     (Throws (InvalidIntervalError (JStr ''week'')),
      [(''query'', JStr ''skatt''), (''interval'', JStr ''week'')], empty_state) \<and>
   hits_op example_index [(''query'', JStr ''skatt''), (''interval'', JStr ''week'')] empty_state =
     (Throws (InvalidIntervalError (JStr ''week'')),
      [(''query'', JStr ''skatt''), (''interval'', JStr ''week'')], empty_state) \<and>
   intervalFrom [(''query'', JStr ''skatt'')] = Inr (JStr ''month'') \<and>
   intervalFrom [(''query'', JStr ''skatt''), (''interval'', JStr ''year'')] = Inr (JStr ''year'')"
  using interval_validation [of "[(''query'', JStr ''skatt''), (''interval'', JStr ''week'')]"
      example_index example_instant example_current empty_state]
    interval_validation [of "[(''query'', JStr ''skatt'')]"]
    interval_validation [of "[(''query'', JStr ''skatt''), (''interval'', JStr ''year'')]"]
  by (simp add: get_prop_def ALLOWED_INTERVALS_def)

text \<open>
  C4 as stated fails for the empty string: it is not an allowed interval, yet
  \<^verbatim>\<open>summary\<close> raises no error, queries the index with \<open>month\<close> and resolves.
\<close>

theorem empty_interval_counterexample:
  "get_prop [(''query'', JStr ''skatt''), (''interval'', JStr [])] ''interval''
     \<notin> set ALLOWED_INTERVALS \<and>
   summary example_index example_instant example_current
       [(''query'', JStr ''skatt''), (''interval'', JStr [])] empty_state =
     (Resolved (SummaryResult example_summary),
      [(''query'', JStr ''skatt''), (''interval'', JStr ''month'')],
      \<lparr>cache = [(cacheKey ''summary''
                    (JObj [(''query'', JStr ''skatt''), (''interval'', JStr ''month'')]),
                  SummaryResult example_summary)],
       requests =
         [AggregationsQuery [(''query'', JStr ''skatt''), (''interval'', JStr ''month'')]]\<rparr>)"
  by (simp add: summary_def intervalFrom_def get_prop_def js_or_def indexOf_def
      ALLOWED_INTERVALS_def set_prop_def cached_def lru_get_def fetch_and_store_def
      fetch_summary_def es_search_def example_index_def example_buildResponse
      cacheResponse_def lru_set_def LRU_MAX_def empty_state_def Let_def)



section \<open>The context of a speech\<close>

lemma matches_order:
  "matches_context body d \<Longrightarrow>
     range_gte body \<le> number_field ''order'' d \<and> number_field ''order'' d \<le> range_lte body"
  by (auto simp: matches_context_def number_field_def split: jsval.splits)

lemma distinct_within_range:
  fixes ns :: "int list"
  assumes "distinct ns" and "\<forall>n \<in> set ns. lo \<le> n \<and> n \<le> hi"
  shows "length ns \<le> nat (hi - lo + 1)"
proof -
  have "set ns \<subseteq> {lo..hi}" using assms(2) by auto
  then have "card (set ns) \<le> card {lo..hi}" by (intro card_mono) simp_all
  with assms(1) show ?thesis by (simp add: distinct_card)
qed

lemma getContext_index:
  assumes "0 \<le> end - start + 1"
    and "es (ContextQuery (context_request ident start end)) =
         context_search docs (context_request ident start end)"
  shows "getContext es ident start end s =
       (Resolved (take (nat (end - start + 1))
          (sort_key (number_field ''order'')
             (filter (matches_context (context_request ident start end)) docs))),
        s\<lparr>requests := requests s @ [ContextQuery (context_request ident start end)]\<rparr>)"
proof -
  have "context_search docs (context_request ident start end) =
      Inr \<lparr>response_total =
             length (filter (matches_context (context_request ident start end)) docs),
           response_hits =
             Some (map stored_hit
                (take (nat (end - start + 1))
                   (sort_key (number_field ''order'')
                      (filter (matches_context (context_request ident start end)) docs)))),
           response_aggregations = no_aggregations\<rparr>"
    using assms(1) by (simp add: context_search_def context_request_def Let_def)
  with assms(2) show ?thesis
    by (simp add: getContext_def es_search_def stored_hit_def comp_def)
qed

lemma getContext_failure:
  "es (ContextQuery (context_request ident start end)) = Inl e \<Longrightarrow>
     fst (getContext es ident start end s) = Rejected e"
  by (simp add: getContext_def es_search_def)

text \<open>
  C9 (amended). For \<open>start \<le> end + 1\<close>, when the index answers the search over its
  documents as \<open>context_search\<close> describes, \<^verbatim>\<open>getContext\<close> resolves to the documents of
  the transcript whose order lies between \<open>start\<close> and \<open>end\<close> inclusive, sorted ascending
  by order and cut to the first \<open>end - start + 1\<close>, which is the size it asks for: all of
  them when no two of these documents have the same order, and the empty sequence when
  there are none. When the index fails, the promise is rejected with that failure.
\<close>

theorem context_slice:
  assumes range: "start \<le> end + 1"
  shows "(es (ContextQuery (context_request ident start end)) =
            context_search docs (context_request ident start end) \<longrightarrow>
            getContext es ident start end s =
              (Resolved (take (nat (end - start + 1))
                 (sort_key (number_field ''order'')
                    (filter (matches_context (context_request ident start end)) docs))),
               s\<lparr>requests := requests s @ [ContextQuery (context_request ident start end)]\<rparr>) \<and>
            (distinct (map (number_field ''order'')
                         (filter (matches_context (context_request ident start end)) docs)) \<longrightarrow>
               fst (getContext es ident start end s) =
                 Resolved (sort_key (number_field ''order'')
                    (filter (matches_context (context_request ident start end)) docs))) \<and>
            (filter (matches_context (context_request ident start end)) docs = [] \<longrightarrow>
               fst (getContext es ident start end s) = Resolved [])) \<and>
         sorted (map (number_field ''order'')
           (take (nat (end - start + 1))
              (sort_key (number_field ''order'')
                 (filter (matches_context (context_request ident start end)) docs)))) \<and>
         (es (ContextQuery (context_request ident start end)) = Inl e \<longrightarrow>
            fst (getContext es ident start end s) = Rejected e)"
proof -
  let ?found = "filter (matches_context (context_request ident start end)) docs"
  from range have size: "0 \<le> end - start + 1" by simp
  have whole: "take (nat (end - start + 1)) (sort_key (number_field ''order'') ?found) =
      sort_key (number_field ''order'') ?found"
    if d: "distinct (map (number_field ''order'') ?found)"
  proof -
    have "\<forall>n \<in> set (map (number_field ''order'') ?found). start \<le> n \<and> n \<le> end"
      using matches_order [of "context_request ident start end"]
      by (auto simp: context_request_def)
    from distinct_within_range [OF d this]
    have "length ?found \<le> nat (end - start + 1)" by simp
    then show ?thesis by simp
  qed
  have "sorted (take (nat (end - start + 1))
      (map (number_field ''order'') (sort_key (number_field ''order'') ?found)))"
    by (intro sorted_wrt_take sorted_sort_key)
  then have ordered: "sorted (map (number_field ''order'')
      (take (nat (end - start + 1)) (sort_key (number_field ''order'') ?found)))"
    by (simp only: take_map)
  show ?thesis
    using getContext_index [OF size, of es ident docs s] whole ordered
      getContext_failure [of es ident start "end" e s]
    by simp
qed

theorem context_slice_witness:
  "(3::int) \<le> 5 + 1 \<and>
   fst (getContext (index_of_docs ten_speeches) ''T1'' 3 5 empty_state) =
     Resolved [[(''transcript'', JStr ''T1''), (''order'', JNum 3)],
               [(''transcript'', JStr ''T1''), (''order'', JNum 4)],
               [(''transcript'', JStr ''T1''), (''order'', JNum 5)]] \<and>
   fst (getContext (index_of_docs ten_speeches) ''T2'' 3 5 empty_state) = Resolved [] \<and>
   fst (getContext failing_index ''T1'' 3 5 empty_state) =
     Rejected (UpstreamQueryError ''timeout'')"
  using context_slice [of 3 5 "index_of_docs ten_speeches" "''T1''" ten_speeches empty_state]
    context_slice [of 3 5 "index_of_docs ten_speeches" "''T2''" ten_speeches empty_state]
    context_slice [of 3 5 failing_index "''T1''" ten_speeches empty_state
      "UpstreamQueryError ''timeout''"]
  by (simp add: ten_speeches_def matches_context_def context_request_def get_prop_def
      number_field_def failing_index_def index_of_docs_def)

text \<open>
  C9 as stated fails when two documents of the transcript share an order: both lie in
  the range \<open>3..3\<close>, the search asks for one document, and one is returned.
\<close>

theorem shared_order_counterexample:
  "filter (matches_context (context_request ''T1'' 3 3)) split_speech = split_speech \<and>
   length split_speech = 2 \<and>
   fst (getContext (index_of_docs split_speech) ''T1'' 3 3 empty_state) =
     Resolved [[(''transcript'', JStr ''T1''), (''order'', JNum 3), (''text'', JStr ''first half'')]]"
  by (simp add: getContext_def es_search_def index_of_docs_def context_search_def
      context_request_def stored_hit_def split_speech_def matches_context_def get_prop_def
      number_field_def Let_def)

end
